theory Spec2Isabelle
  imports Complex_Main "HOL-Library.Word" "HOL-Library.Log_Nat"
begin

unbundle bit_operations_syntax

section \<open>The WinDaq reader of windaq_to_excel_converter.py\<close>

text \<open>
  The class \<open>windaq\<close> reads a whole \<open>.wdq\<close> file into memory and decodes it in its
  constructor; the methods \<open>data\<close>, \<open>unit\<close> and \<open>chAnnotation\<close> read the decoded
  object. The constructor is modelled as a function of the file's bytes (and of the
  local time zone, which \<open>datetime.fromtimestamp\<close> consults); every Python exception
  is a value \<open>Inl e\<close>, every normal result a value \<open>Inr x\<close>.
\<close>

subsection \<open>Bytes, exceptions, sequencing\<close>

type_synonym byte = "8 word"

datatype py_error =
    StructError
  | ZeroDivisionError
  | UnicodeDecodeError
  | ValueError
  | IndexError
  | OverflowError

definition py_bind :: "py_error + 'a \<Rightarrow> ('a \<Rightarrow> py_error + 'b) \<Rightarrow> py_error + 'b" where
  "py_bind m f = (case m of Inl e \<Rightarrow> Inl e | Inr x \<Rightarrow> f x)"

text \<open>
  Python indexing \<open>xs[i]\<close> of a list or tuple: a negative index counts from the end,
  an index outside \<open>-len .. len-1\<close> raises IndexError.
\<close>

definition py_index :: "'a list \<Rightarrow> int \<Rightarrow> py_error + 'a" where
  "py_index xs i =
     (let n = int (length xs); j = (if i < 0 then i + n else i)
      in if 0 \<le> j \<and> j < n then Inr (xs ! nat j) else Inl IndexError)"

text \<open>
  The slice \<open>xs[start::step]\<close> with a positive step: a negative start counts from the
  end and is clipped at 0, a start beyond the end gives the empty sequence; step 0
  raises ValueError.
\<close>

fun every_nth :: "nat \<Rightarrow> 'a list \<Rightarrow> 'a list" where
  "every_nth n [] = []"
| "every_nth n (x # xs) = x # every_nth n (drop (n - 1) xs)"

definition py_slice_step :: "'a list \<Rightarrow> int \<Rightarrow> int \<Rightarrow> py_error + 'a list" where
  "py_slice_step xs start step =
     (if step = 0 then Inl ValueError
      else if step < 0 then Inr []
      else let n = int (length xs);
               s = (if start < 0 then max 0 (start + n) else min start n)
           in Inr (every_nth (nat step) (drop (nat s) xs)))"

subsection \<open>IEEE binary64 values\<close>

text \<open>
  A Python float and a numpy float64 are IEEE binary64 values: a finite value with its
  sign (so that both zeros exist) and its magnitude as the rational it denotes, an
  infinity, or a NaN. Every operation rounds the exact result to the nearest binary64
  value, ties to even.
\<close>

datatype f64 = Finite bool rat | Infinity bool | NaN

definition pow2 :: "int \<Rightarrow> rat" where
  "pow2 e = (if 0 \<le> e then 2 ^ nat e else 1 / 2 ^ nat (- e))"

definition ilog2 :: "rat \<Rightarrow> int" where
  "ilog2 q = (if 1 \<le> q then int (floorlog 2 (nat \<lfloor>q\<rfloor>)) - 1
              else - int (floorlog 2 (nat (\<lceil>1 / q\<rceil> - 1))))"

definition round_half_even :: "rat \<Rightarrow> int" where
  "round_half_even x =
     (let f = \<lfloor>x\<rfloor>; d = x - of_int f
      in if d < 1 / 2 then f else if 1 / 2 < d then f + 1
         else if even f then f else f + 1)"

definition round_f64 :: "bool \<Rightarrow> rat \<Rightarrow> f64" where
  "round_f64 s q =
     (if q = 0 then Finite s 0
      else let e = max (ilog2 q) (- 1022) - 52;
               v = of_int (round_half_even (q / pow2 e)) * pow2 e
           in if pow2 1024 \<le> v then Infinity s else Finite s v)"

definition signed_value :: "bool \<Rightarrow> rat \<Rightarrow> rat" where
  "signed_value s q = (if s then - q else q)"

definition f64_of_int :: "int \<Rightarrow> f64" where
  "f64_of_int i = round_f64 (i < 0) (of_int \<bar>i\<bar>)"

fun f64_mul :: "f64 \<Rightarrow> f64 \<Rightarrow> f64" where
  "f64_mul NaN y = NaN"
| "f64_mul x NaN = NaN"
| "f64_mul (Infinity s) (Infinity t) = Infinity (s \<noteq> t)"
| "f64_mul (Infinity s) (Finite t b) = (if b = 0 then NaN else Infinity (s \<noteq> t))"
| "f64_mul (Finite s a) (Infinity t) = (if a = 0 then NaN else Infinity (s \<noteq> t))"
| "f64_mul (Finite s a) (Finite t b) = round_f64 (s \<noteq> t) (a * b)"

fun f64_add :: "f64 \<Rightarrow> f64 \<Rightarrow> f64" where
  "f64_add NaN y = NaN"
| "f64_add x NaN = NaN"
| "f64_add (Infinity s) (Infinity t) = (if s = t then Infinity s else NaN)"
| "f64_add (Infinity s) (Finite t b) = Infinity s"
| "f64_add (Finite s a) (Infinity t) = Infinity t"
| "f64_add (Finite s a) (Finite t b) =
     (let v = signed_value s a + signed_value t b
      in if v = 0 then Finite (s \<and> t) 0 else round_f64 (v < 0) \<bar>v\<bar>)"

text \<open>\<open>numpy.floor\<close> on a float64.\<close>

fun f64_floor :: "f64 \<Rightarrow> f64" where
  "f64_floor (Finite s a) =
     (let f = \<lfloor>signed_value s a\<rfloor>
      in if f < 0 then Finite True (of_int (- f)) else Finite s (of_int f))"
| "f64_floor x = x"

text \<open>Python's \<open>a / b\<close> on two ints: the correctly rounded quotient.\<close>

definition py_truediv :: "int \<Rightarrow> int \<Rightarrow> py_error + f64" where
  "py_truediv a b =
     (if b = 0 then Inl ZeroDivisionError
      else Inr (round_f64 ((a < 0) \<noteq> (b < 0)) \<bar>of_int a / of_int b\<bar>))"

text \<open>Python's \<open>int(x)\<close> on a float truncates towards zero.\<close>

fun py_int :: "f64 \<Rightarrow> py_error + int" where
  "py_int (Finite s a) = Inr (if s then - \<lfloor>a\<rfloor> else \<lfloor>a\<rfloor>)"
| "py_int (Infinity s) = Inl OverflowError"
| "py_int NaN = Inl ValueError"

text \<open>The value of a binary64 and of a binary32 bit pattern.\<close>

definition f64_of_bits :: "int \<Rightarrow> f64" where
  "f64_of_bits n =
     (let s = (2 ^ 63 \<le> n); e = (n div 2 ^ 52) mod 2048; f = n mod 2 ^ 52
      in if e = 2047 then (if f = 0 then Infinity s else NaN)
         else if e = 0 then Finite s (of_int f * pow2 (- 1074))
         else Finite s (of_int (2 ^ 52 + f) * pow2 (e - 1075)))"

definition f32_of_bits :: "int \<Rightarrow> f64" where
  "f32_of_bits n =
     (let s = (2 ^ 31 \<le> n); e = (n div 2 ^ 23) mod 256; f = n mod 2 ^ 23
      in if e = 255 then (if f = 0 then Infinity s else NaN)
         else if e = 0 then Finite s (of_int f * pow2 (- 149))
         else Finite s (of_int (2 ^ 23 + f) * pow2 (e - 150)))"

subsection \<open>struct.unpack_from\<close>

text \<open>
  \<open>struct.unpack_from(fmt, buffer, offset)\<close> reads the bytes of the format at the
  offset; a negative offset counts from the end of the buffer; it raises
  \<open>struct.error\<close> when the bytes are not all inside the buffer.
\<close>

definition unpack_from :: "nat \<Rightarrow> byte list \<Rightarrow> int \<Rightarrow> py_error + byte list" where
  "unpack_from sz buf offset =
     (let len = int (length buf)
      in if offset < 0 \<and> (0 < offset + int sz \<or> offset + len < 0) then Inl StructError
         else let off = (if offset < 0 then offset + len else offset)
              in if len - off < int sz then Inl StructError
                 else Inr (take sz (drop (nat off) buf)))"

text \<open>Little-endian integers.\<close>

fun le_uint :: "byte list \<Rightarrow> int" where
  "le_uint [] = 0"
| "le_uint (b # bs) = uint b + 256 * le_uint bs"

definition le_sint :: "byte list \<Rightarrow> int" where
  "le_sint bs =
     (let v = le_uint bs; w = 8 * length bs
      in if 2 ^ (w - 1) \<le> v then v - 2 ^ w else v)"

definition unpack_B :: "byte list \<Rightarrow> int \<Rightarrow> py_error + int" where
  "unpack_B buf offset = py_bind (unpack_from 1 buf offset) (\<lambda>bs. Inr (le_uint bs))"

definition unpack_UI :: "byte list \<Rightarrow> int \<Rightarrow> py_error + int" where
  "unpack_UI buf offset = py_bind (unpack_from 2 buf offset) (\<lambda>bs. Inr (le_uint bs))"

definition unpack_I :: "byte list \<Rightarrow> int \<Rightarrow> py_error + int" where
  "unpack_I buf offset = py_bind (unpack_from 2 buf offset) (\<lambda>bs. Inr (le_sint bs))"

definition unpack_UL :: "byte list \<Rightarrow> int \<Rightarrow> py_error + int" where
  "unpack_UL buf offset = py_bind (unpack_from 4 buf offset) (\<lambda>bs. Inr (le_uint bs))"

definition unpack_L :: "byte list \<Rightarrow> int \<Rightarrow> py_error + int" where
  "unpack_L buf offset = py_bind (unpack_from 4 buf offset) (\<lambda>bs. Inr (le_sint bs))"

definition unpack_F :: "byte list \<Rightarrow> int \<Rightarrow> py_error + f64" where
  "unpack_F buf offset =
     py_bind (unpack_from 4 buf offset) (\<lambda>bs. Inr (f32_of_bits (le_uint bs)))"

definition unpack_D :: "byte list \<Rightarrow> int \<Rightarrow> py_error + f64" where
  "unpack_D buf offset =
     py_bind (unpack_from 8 buf offset) (\<lambda>bs. Inr (f64_of_bits (le_uint bs)))"

definition unpack_c :: "byte list \<Rightarrow> int \<Rightarrow> py_error + byte" where
  "unpack_c buf offset = py_bind (unpack_from 1 buf offset) (\<lambda>bs. Inr (hd bs))"

definition unpack_cccccc :: "byte list \<Rightarrow> int \<Rightarrow> py_error + byte list" where
  "unpack_cccccc buf offset = unpack_from 6 buf offset"

subsection \<open>Text\<close>

text \<open>
  \<open>b.decode("utf-8")\<close> of a bytes object of length one: a byte below 0x80 is the
  character of that code, any other byte is an incomplete or invalid UTF-8 sequence
  and raises UnicodeDecodeError.
\<close>

definition decode_utf8 :: "byte \<Rightarrow> py_error + string" where
  "decode_utf8 b = (if b < 0x80 then Inr [char_of (unat b)] else Inl UnicodeDecodeError)"

text \<open>\<open>s.split(sep)\<close> with a one-character separator.\<close>

fun split :: "char \<Rightarrow> string \<Rightarrow> string list" where
  "split sep [] = [[]]"
| "split sep (c # cs) =
     (if c = sep then [] # split sep cs
      else (case split sep cs of [] \<Rightarrow> [[c]] | p # ps \<Rightarrow> (c # p) # ps))"

text \<open>\<open>s.strip()\<close>: the white space of \<open>str.isspace\<close> among the ASCII characters.\<close>

definition isspace :: "char \<Rightarrow> bool" where
  "isspace c = (let n = (of_char c :: nat) in (9 \<le> n \<and> n \<le> 13) \<or> (28 \<le> n \<and> n \<le> 32))"

definition strip :: "string \<Rightarrow> string" where
  "strip s = rev (dropWhile isspace (rev (dropWhile isspace s)))"

subsection \<open>Calendar time\<close>

text \<open>
  \<open>datetime.utcfromtimestamp(t)\<close> is the proleptic Gregorian date and time of day of
  the instant \<open>t\<close> seconds after 1970-01-01 00:00:00 UTC; \<open>datetime.fromtimestamp(t)\<close>
  is the same in the local time zone of the process. Of the execution environment
  only this time zone is modelled, as its offset from UTC at an instant: the
  conversions are taken to return for every 32-bit time stamp, as they do on POSIX
  systems with the default warning filters (on Windows a negative time stamp raises
  OSError, and a warning filter can turn the deprecation warning of
  \<open>utcfromtimestamp\<close> into an exception; neither is modelled).
\<close>

record datetime =
  year :: int
  month :: int
  day :: int
  hour :: int
  minute :: int
  second :: int

record environment =
  utcoffset :: "int \<Rightarrow> int"

definition civil_from_days :: "int \<Rightarrow> int \<times> int \<times> int" where
  "civil_from_days z0 =
     (let z = z0 + 719468;
          era = z div 146097;
          doe = z - era * 146097;
          yoe = (doe - doe div 1460 + doe div 36524 - doe div 146096) div 365;
          doy = doe - (365 * yoe + yoe div 4 - yoe div 100);
          mp = (5 * doy + 2) div 153;
          d = doy - (153 * mp + 2) div 5 + 1;
          m = (if mp < 10 then mp + 3 else mp - 9);
          y = yoe + era * 400 + (if m \<le> 2 then 1 else 0)
      in (y, m, d))"

definition utcfromtimestamp :: "int \<Rightarrow> datetime" where
  "utcfromtimestamp t =
     (let (y, m, d) = civil_from_days (t div 86400); s = t mod 86400
      in \<lparr> year = y, month = m, day = d,
           hour = s div 3600, minute = (s mod 3600) div 60, second = s mod 60 \<rparr>)"

definition fromtimestamp :: "environment \<Rightarrow> int \<Rightarrow> datetime" where
  "fromtimestamp env t = utcfromtimestamp (t + utcoffset env t)"

definition digit :: "int \<Rightarrow> char" where
  "digit d = ''0123456789'' ! nat d"

definition pad2 :: "int \<Rightarrow> string" where
  "pad2 v = [digit (v div 10 mod 10), digit (v mod 10)]"

definition pad4 :: "int \<Rightarrow> string" where
  "pad4 v = pad2 (v div 100) @ pad2 (v mod 100)"

text \<open>\<open>strftime('%Y-%m-%d %H:%M:%S')\<close>.\<close>

definition strftime :: "datetime \<Rightarrow> string" where
  "strftime dt =
     pad4 (year dt) @ ''-'' @ pad2 (month dt) @ ''-'' @ pad2 (day dt) @ '' '' @
     pad2 (hour dt) @ '':'' @ pad2 (minute dt) @ '':'' @ pad2 (second dt)"

subsection \<open>numpy.frombuffer\<close>

text \<open>
  \<open>numpy.frombuffer(buffer, dtype='<i2', count, offset)\<close>: the offset must lie in
  \<open>0 .. len\<close>; a negative count takes everything after the offset, which must then be
  a whole number of items; the buffer after the offset must hold \<open>count\<close> items.
  Otherwise ValueError. The items are signed 16-bit little-endian integers.
\<close>

definition frombuffer_int16 :: "byte list \<Rightarrow> int \<Rightarrow> int \<Rightarrow> py_error + int list" where
  "frombuffer_int16 buf count offset =
     (let ts = int (length buf)
      in if offset < 0 \<or> ts < offset then Inl ValueError
         else let s = ts - offset
              in if count < 0 \<and> s mod 2 \<noteq> 0 then Inl ValueError
                 else if 0 \<le> count \<and> s < count * 2 then Inl ValueError
                 else let n = (if count < 0 then s div 2 else count)
                      in Inr (map (\<lambda>k. le_sint (take 2 (drop (nat offset + 2 * k) buf)))
                                [0..<nat n]))"

subsection \<open>The constructor\<close>

record header =
  nChannels :: int
  hChannels :: int
  hChannelSize :: int
  headSize :: int
  dataSize :: int
  nSample :: f64
  trailerSize :: int
  annoSize :: int
  timeStep :: f64
  fileCreatedRaw :: datetime
  fileCreated :: string
  fileWritten :: string
  packed :: int
  HiRes :: int

record channel_info =
  scalingSlope :: "f64 list"
  scalingIntercept :: "f64 list"
  calScaling :: "f64 list"
  calIntercept :: "f64 list"
  engUnits :: "byte list list"
  sampleRateDivisor :: "int list"
  phyChannel :: "int list"

record windaq =
  fcontents :: "byte list"
  hdr :: header
  chan :: channel_info
  annotations :: "string list"
  npdata :: "int list"

text \<open>Lines 61 to 64: the number of channels.\<close>

definition read_nChannels :: "byte list \<Rightarrow> py_error + int" where
  "read_nChannels fc =
     py_bind (unpack_UI fc 2) (\<lambda>ver.
       if 144 \<le> ver then unpack_B fc 0
       else py_bind (unpack_B fc 0) (\<lambda>b. Inr (b AND 31)))"

text \<open>Lines 61 to 83: the header.\<close>

definition read_header :: "environment \<Rightarrow> byte list \<Rightarrow> py_error + header" where
  "read_header env fc =
     py_bind (read_nChannels fc) (\<lambda>nCh.
     py_bind (unpack_B fc 4) (\<lambda>hCh.
     py_bind (unpack_B fc 5) (\<lambda>hChSize.
     py_bind (unpack_I fc 6) (\<lambda>hSize.
     py_bind (unpack_UL fc 8) (\<lambda>dSize.
     py_bind (py_truediv dSize (2 * nCh)) (\<lambda>nSmp.
     py_bind (unpack_UL fc 12) (\<lambda>tSize.
     py_bind (unpack_UI fc 16) (\<lambda>aSize.
     py_bind (unpack_D fc 28) (\<lambda>tStep.
     py_bind (unpack_L fc 36) (\<lambda>e14.
     py_bind (unpack_L fc 40) (\<lambda>e15.
     py_bind (unpack_UI fc 100) (\<lambda>e27.
     py_bind (unpack_UI fc 100) (\<lambda>e27'.
       Inr \<lparr> nChannels = nCh,
             hChannels = hCh,
             hChannelSize = hChSize,
             headSize = hSize,
             dataSize = dSize,
             nSample = nSmp,
             trailerSize = tSize,
             annoSize = aSize,
             timeStep = tStep,
             fileCreatedRaw = utcfromtimestamp e14,
             fileCreated = strftime (fromtimestamp env e14),
             fileWritten = strftime (fromtimestamp env e15),
             packed = drop_bit 14 (e27 AND 16384),
             HiRes = e27' AND 2 \<rparr>)))))))))))))"

text \<open>Lines 96 to 109: one round of the loop over the channels, and the loop.\<close>

definition read_channel :: "byte list \<Rightarrow> header \<Rightarrow> channel_info \<Rightarrow> int \<Rightarrow> py_error + channel_info" where
  "read_channel fc h ci channel =
     (let channelOffset = hChannels h + hChannelSize h * channel in
      py_bind (unpack_F fc channelOffset) (\<lambda>slope.
      py_bind (unpack_F fc (channelOffset + 4)) (\<lambda>icpt.
      py_bind (unpack_D fc (channelOffset + 4 + 4)) (\<lambda>cal.
      py_bind (unpack_D fc (channelOffset + 4 + 4 + 8)) (\<lambda>calIcpt.
      py_bind (unpack_cccccc fc (channelOffset + 4 + 4 + 8 + 8)) (\<lambda>units.
      py_bind (if packed h \<noteq> 0 then unpack_B fc (channelOffset + 4 + 4 + 8 + 8 + 6 + 1)
               else Inr 1) (\<lambda>divisor.
      py_bind (unpack_B fc (channelOffset + 4 + 4 + 8 + 8 + 6 + 1 + 1)) (\<lambda>phy.
        Inr \<lparr> scalingSlope = scalingSlope ci @ [slope],
              scalingIntercept = scalingIntercept ci @ [icpt],
              calScaling = calScaling ci @ [cal],
              calIntercept = calIntercept ci @ [calIcpt],
              engUnits = engUnits ci @ [units],
              sampleRateDivisor = sampleRateDivisor ci @ [divisor],
              phyChannel = phyChannel ci @ [phy] \<rparr>))))))))"

fun read_channels :: "byte list \<Rightarrow> header \<Rightarrow> channel_info \<Rightarrow> int list \<Rightarrow> py_error + channel_info" where
  "read_channels fc h ci [] = Inr ci"
| "read_channels fc h ci (channel # rest) =
     py_bind (read_channel fc h ci channel) (\<lambda>ci'. read_channels fc h ci' rest)"

definition py_range :: "int \<Rightarrow> int list" where
  "py_range n = map int [0..<nat n]"

definition read_channel_info :: "byte list \<Rightarrow> header \<Rightarrow> py_error + channel_info" where
  "read_channel_info fc h =
     read_channels fc h
       \<lparr> scalingSlope = [], scalingIntercept = [], calScaling = [], calIntercept = [],
         engUnits = [], sampleRateDivisor = [], phyChannel = [] \<rparr>
       (py_range (nChannels h))"

text \<open>Lines 114 to 118: the user annotations.\<close>

fun read_anno :: "byte list \<Rightarrow> int \<Rightarrow> string \<Rightarrow> int list \<Rightarrow> py_error + string" where
  "read_anno fc off aTemp [] = Inr aTemp"
| "read_anno fc off aTemp (i # rest) =
     py_bind (unpack_c fc (off + i)) (\<lambda>b.
     py_bind (decode_utf8 b) (\<lambda>s. read_anno fc off (aTemp @ s) rest))"

definition aOffset :: "header \<Rightarrow> int" where
  "aOffset h = headSize h + dataSize h + trailerSize h"

definition read_annotations :: "byte list \<Rightarrow> header \<Rightarrow> py_error + string list" where
  "read_annotations fc h =
     py_bind (read_anno fc (aOffset h) [] (py_range (annoSize h))) (\<lambda>aTemp.
       Inr (split (CHR 0x00) aTemp))"

text \<open>Lines 121 to 123: the view of the samples.\<close>

definition read_npdata :: "byte list \<Rightarrow> header \<Rightarrow> py_error + int list" where
  "read_npdata fc h =
     py_bind (py_int (f64_mul (nSample h) (f64_of_int (nChannels h)))) (\<lambda>count.
       frombuffer_int16 fc count (headSize h))"

definition windaq_init :: "environment \<Rightarrow> byte list \<Rightarrow> py_error + windaq" where
  "windaq_init env fc =
     py_bind (read_header env fc) (\<lambda>h.
     py_bind (read_channel_info fc h) (\<lambda>ci.
     py_bind (read_annotations fc h) (\<lambda>a.
     py_bind (read_npdata fc h) (\<lambda>d.
       Inr \<lparr> fcontents = fc, hdr = h, chan = ci, annotations = a, npdata = d \<rparr>))))"

subsection \<open>The methods\<close>

definition quarter :: f64 where
  "quarter = Finite False (1 / 4)"

definition data :: "windaq \<Rightarrow> int \<Rightarrow> py_error + f64 list" where
  "data w channelNumber =
     py_bind (py_slice_step (npdata w) (channelNumber - 1) (nChannels (hdr w))) (\<lambda>d.
       let temp = (if HiRes (hdr w) \<noteq> 0
                   then map (\<lambda>r. f64_mul (f64_of_int r) quarter) d
                   else map (\<lambda>r. f64_floor (f64_mul (f64_of_int r) quarter)) d)
       in py_bind (py_index (calScaling (chan w)) (channelNumber - 1)) (\<lambda>cal.
          py_bind (py_index (calIntercept (chan w)) (channelNumber - 1)) (\<lambda>icpt.
            Inr (map (\<lambda>t. f64_add (f64_mul cal t) icpt) temp))))"

fun decode_all :: "string \<Rightarrow> byte list \<Rightarrow> py_error + string" where
  "decode_all u [] = Inr u"
| "decode_all u (b # bs) = py_bind (decode_utf8 b) (\<lambda>s. decode_all (u @ s) bs)"

definition unit :: "windaq \<Rightarrow> int \<Rightarrow> py_error + string" where
  "unit w channelNumber =
     py_bind (py_index (engUnits (chan w)) (channelNumber - 1)) (\<lambda>bs.
     py_bind (decode_all [] bs) (\<lambda>u.
       Inr (strip (filter (\<lambda>c. c \<noteq> CHR 0x00) u))))"

definition chAnnotation :: "windaq \<Rightarrow> int \<Rightarrow> py_error + string" where
  "chAnnotation w channelNumber = py_index (annotations w) (channelNumber - 1)"

subsection \<open>A sample file\<close>

text \<open>
  A file of two channels with nine samples each, in standard resolution and not
  packed: the header of 110 bytes (channel count 2, format 1, channel table at 110
  with entries of 36 bytes, header size 184, data size 36, no trailer, 8 bytes of
  annotations, time step 1/1024 s, opened at 1700000000 and written at 1700000060
  seconds after the epoch, flags 0), the two channel entries (calibration 1.0 and
  0.0 with unit A, calibration 2.0 and 0.5 with unit V), the end-of-header mark, the
  interleaved samples and the annotations \<open>Cur\<close> and \<open>Vol\<close>.
\<close>

definition example_header :: "byte list" where
  "example_header =
     [2, 0, 1, 0, 110, 36, 184, 0, 36, 0, 0, 0, 0, 0, 0, 0,
      8, 0, 0, 0, 0, 0, 0, 0, 0, 0, 0, 0, 0, 0, 0, 0,
      0, 0, 80, 63, 0, 241, 83, 101, 60, 241, 83, 101, 0, 0, 0, 0,
      0, 0, 0, 0, 0, 0, 0, 0, 0, 0, 0, 0, 0, 0, 0, 0,
      0, 0, 0, 0, 0, 0, 0, 0, 0, 0, 0, 0, 0, 0, 0, 0,
      0, 0, 0, 0, 0, 0, 0, 0, 0, 0, 0, 0, 0, 0, 0, 0,
      0, 0, 0, 0, 0, 0, 0, 0, 0, 0, 0, 0, 0, 0]"

definition example_channel1 :: "byte list" where
  "example_channel1 =
     [0, 0, 128, 63, 0, 0, 0, 0, 0, 0, 0, 0, 0, 0, 240, 63, 0, 0, 0, 0, 0, 0, 0, 0,
      65, 32, 32, 32, 0, 0, 0, 4, 1, 0, 0, 0]"

definition example_channel2 :: "byte list" where
  "example_channel2 =
     [0, 0, 0, 63, 0, 0, 0, 0, 0, 0, 0, 0, 0, 0, 0, 64, 0, 0, 0, 0, 0, 0, 224, 63,
      86, 32, 32, 32, 0, 0, 0, 2, 2, 0, 0, 0]"

definition example_samples :: "byte list" where
  "example_samples =
     [252, 255, 10, 0, 253, 255, 246, 255, 254, 255, 20, 0, 255, 255, 236, 255,
      0, 0, 30, 0, 1, 0, 226, 255, 2, 0, 40, 0, 3, 0, 216, 255, 4, 0, 50, 0]"

definition example_annotations :: "byte list" where
  "example_annotations = [67, 117, 114, 0, 86, 111, 108, 0]"

definition example_wdq :: "byte list" where
  "example_wdq =
     example_header @ example_channel1 @ example_channel2 @ [1, 128] @
     example_samples @ example_annotations"

text \<open>The time zones UTC and UTC+1.\<close>

definition utc :: environment where
  "utc = \<lparr> utcoffset = (\<lambda>t. 0) \<rparr>"

definition utc_plus_1 :: environment where
  "utc_plus_1 = \<lparr> utcoffset = (\<lambda>t. 3600) \<rparr>"

text \<open>What the constructor makes of the sample file in a given time zone.\<close>

definition example_hdr :: "environment \<Rightarrow> header" where
  "example_hdr env =
     \<lparr> nChannels = 2, hChannels = 110, hChannelSize = 36, headSize = 184, dataSize = 36,
       nSample = Finite False 9, trailerSize = 0, annoSize = 8,
       timeStep = Finite False (1 / 1024),
       fileCreatedRaw =
         \<lparr> year = 2023, month = 11, day = 14, hour = 22, minute = 13, second = 20 \<rparr>,
       fileCreated = strftime (fromtimestamp env 1700000000),
       fileWritten = strftime (fromtimestamp env 1700000060),
       packed = 0, HiRes = 0 \<rparr>"

definition example_chan :: channel_info where
  "example_chan =
     \<lparr> scalingSlope = [Finite False 1, Finite False (1 / 2)],
       scalingIntercept = [Finite False 0, Finite False 0],
       calScaling = [Finite False 1, Finite False 2],
       calIntercept = [Finite False 0, Finite False (1 / 2)],
       engUnits = [[65, 32, 32, 32, 0, 0], [86, 32, 32, 32, 0, 0]],
       sampleRateDivisor = [1, 1],
       phyChannel = [1, 2] \<rparr>"

definition example_npdata :: "int list" where
  "example_npdata =
     [- 4, 10, - 3, - 10, - 2, 20, - 1, - 20, 0, 30, 1, - 30, 2, 40, 3, - 40, 4, 50]"

definition example_recording :: "environment \<Rightarrow> windaq" where
  "example_recording env =
     \<lparr> fcontents = example_wdq, hdr = example_hdr env, chan = example_chan,
       annotations = [''Cur'', ''Vol'', ''''], npdata = example_npdata \<rparr>"

text \<open>The same file marked as high resolution: bit 1 of the flags at offset 100 is set.\<close>

definition example_hires :: windaq where
  "example_hires =
     (example_recording utc)
       \<lparr> fcontents := example_wdq[100 := 2], hdr := (example_hdr utc)\<lparr> HiRes := 2 \<rparr> \<rparr>"



subsection \<open>Notions used in the statements\<close>

text \<open>
  The entry of a channel, as the loop of lines 96 to 109 reads it: entry \<open>k\<close> of the
  seven lists holds what the reads at the fixed offsets 0, 4, 8, 16, 24, 31 and 32 of
  the channel's entry return.
\<close>

definition entry_at :: "byte list \<Rightarrow> header \<Rightarrow> channel_info \<Rightarrow> int \<Rightarrow> nat \<Rightarrow> bool" where
  "entry_at fc h ci channel k =
     (let off = hChannels h + hChannelSize h * channel
      in unpack_F fc off = Inr (scalingSlope ci ! k) \<and>
         unpack_F fc (off + 4) = Inr (scalingIntercept ci ! k) \<and>
         unpack_D fc (off + 8) = Inr (calScaling ci ! k) \<and>
         unpack_D fc (off + 16) = Inr (calIntercept ci ! k) \<and>
         unpack_cccccc fc (off + 24) = Inr (engUnits ci ! k) \<and>
         (if packed h \<noteq> 0 then unpack_B fc (off + 31) = Inr (sampleRateDivisor ci ! k)
          else sampleRateDivisor ci ! k = 1) \<and>
         unpack_B fc (off + 32) = Inr (phyChannel ci ! k))"

text \<open>The seven lists have the same length; one table is a prefix of another.\<close>

definition uniform :: "channel_info \<Rightarrow> nat \<Rightarrow> bool" where
  "uniform ci m =
     (length (scalingSlope ci) = m \<and> length (scalingIntercept ci) = m \<and>
      length (calScaling ci) = m \<and> length (calIntercept ci) = m \<and>
      length (engUnits ci) = m \<and> length (sampleRateDivisor ci) = m \<and>
      length (phyChannel ci) = m)"

definition extends :: "channel_info \<Rightarrow> channel_info \<Rightarrow> nat \<Rightarrow> bool" where
  "extends ci ci' m =
     (take m (scalingSlope ci') = scalingSlope ci \<and>
      take m (scalingIntercept ci') = scalingIntercept ci \<and>
      take m (calScaling ci') = calScaling ci \<and>
      take m (calIntercept ci') = calIntercept ci \<and>
      take m (engUnits ci') = engUnits ci \<and>
      take m (sampleRateDivisor ci') = sampleRateDivisor ci \<and>
      take m (phyChannel ci') = phyChannel ci)"

text \<open>
  The layout of a channel entry in the words of the specification: the fields follow
  one another, the divisor byte right after the 6-byte unit tag (offset 30) and only
  in a packed file, the physical channel number right after it.
\<close>

definition spec_divisor_offset :: int where
  "spec_divisor_offset = 30"

definition spec_phy_offset :: "int \<Rightarrow> int" where
  "spec_phy_offset pk = (if pk \<noteq> 0 then 31 else 30)"

text \<open>
  The values of a channel in the words of the specification: the samples of channel
  \<open>c\<close> are those at the positions \<open>c - 1\<close>, \<open>c - 1 + n\<close>, \<open>c - 1 + 2n\<close>, ... of the
  interleaved block; a raw sample \<open>r\<close> is scaled to \<open>r * 0.25\<close> in high resolution and
  to \<open>floor (r * 0.25)\<close> otherwise, both exactly, and the calibration of the channel
  is applied in binary64 arithmetic.
\<close>

definition f64_exact :: "rat \<Rightarrow> f64" where
  "f64_exact q = Finite (q < 0) \<bar>q\<bar>"

definition spec_channel_samples :: "windaq \<Rightarrow> int \<Rightarrow> int list" where
  "spec_channel_samples w c =
     (let n = nat (nChannels (hdr w)); k = nat (c - 1)
      in map (\<lambda>j. npdata w ! (k + j * n)) [0..<(length (npdata w) - k + n - 1) div n])"

definition spec_physical_value :: "int \<Rightarrow> f64 \<Rightarrow> f64 \<Rightarrow> int \<Rightarrow> f64" where
  "spec_physical_value hires cal_scale cal_intercept r =
     f64_add (f64_mul cal_scale
       (if hires \<noteq> 0 then f64_exact (of_int r * (1 / 4))
        else f64_exact (of_int \<lfloor>(of_int r :: rat) * (1 / 4)\<rfloor>))) cal_intercept"

definition spec_channel_values :: "windaq \<Rightarrow> int \<Rightarrow> f64 list" where
  "spec_channel_values w c =
     map (spec_physical_value (HiRes (hdr w)) (calScaling (chan w) ! nat (c - 1))
            (calIntercept (chan w) ! nat (c - 1)))
       (spec_channel_samples w c)"

section \<open>Facts about the reader\<close>

subsection \<open>Sequencing and reads\<close>

lemma py_bind_Inl [simp]: "py_bind (Inl e) f = Inl e"
  by (simp add: py_bind_def)

lemma py_bind_Inr [simp]: "py_bind (Inr x) f = f x"
  by (simp add: py_bind_def)

lemma py_bind_eq_Inr: "py_bind m f = Inr y \<longleftrightarrow> (\<exists>x. m = Inr x \<and> f x = Inr y)"
  by (cases m) simp_all

lemma py_bind_eq_Inl: "py_bind m f = Inl e \<longleftrightarrow> m = Inl e \<or> (\<exists>x. m = Inr x \<and> f x = Inl e)"
  by (cases m) simp_all

lemma unpack_from_nonneg:
  "0 \<le> off \<Longrightarrow> unpack_from sz buf off =
     (if int (length buf) < off + int sz then Inl StructError
      else Inr (take sz (drop (nat off) buf)))"
  by (auto simp add: unpack_from_def Let_def)

lemma unpack_from_error: "unpack_from sz buf off = Inl e \<Longrightarrow> e = StructError"
  by (auto simp add: unpack_from_def Let_def split: if_splits)


lemmas unpack_defs = unpack_B_def unpack_UI_def unpack_I_def unpack_UL_def unpack_L_def
  unpack_F_def unpack_D_def unpack_c_def unpack_cccccc_def

lemma unpack_errors:
  "unpack_B buf off = Inl e \<Longrightarrow> e = StructError"
  "unpack_UI buf off = Inl e \<Longrightarrow> e = StructError"
  "unpack_I buf off = Inl e \<Longrightarrow> e = StructError"
  "unpack_UL buf off = Inl e \<Longrightarrow> e = StructError"
  "unpack_L buf off = Inl e \<Longrightarrow> e = StructError"
  "unpack_F buf off = Inl e \<Longrightarrow> e = StructError"
  "unpack_D buf off = Inl e \<Longrightarrow> e = StructError"
  "unpack_c buf off = Inl e \<Longrightarrow> e = StructError"
  "unpack_cccccc buf off = Inl e \<Longrightarrow> e = StructError"
  by (auto simp add: unpack_defs py_bind_eq_Inl dest: unpack_from_error)




lemma unpack_UI_length: "unpack_UI fc off = Inr v \<Longrightarrow> 0 \<le> off \<Longrightarrow> off + 2 \<le> int (length fc)"
  by (auto simp add: unpack_UI_def py_bind_eq_Inr unpack_from_nonneg split: if_splits)

lemma read_header_length: "read_header env fc = Inr h \<Longrightarrow> 102 \<le> length fc"
  unfolding read_header_def
  by (auto simp add: py_bind_eq_Inr dest: unpack_UI_length)

lemma windaq_init_header_error: "read_header env fc = Inl e \<Longrightarrow> windaq_init env fc = Inl e"
  by (simp add: windaq_init_def)

lemma windaq_init_Inr:
  "windaq_init env fc = Inr w \<longleftrightarrow>
     read_header env fc = Inr (hdr w) \<and> read_channel_info fc (hdr w) = Inr (chan w) \<and>
     read_annotations fc (hdr w) = Inr (annotations w) \<and>
     read_npdata fc (hdr w) = Inr (npdata w) \<and> fcontents w = fc"
  by (cases w) (auto simp add: windaq_init_def py_bind_eq_Inr)

subsection \<open>The sample files decode\<close>

lemmas example_bytes = example_wdq_def example_header_def example_channel1_def
  example_channel2_def example_samples_def example_annotations_def

lemmas f64_eval = round_f64_def ilog2_def pow2_def round_half_even_def compute_floorlog
  f64_of_int_def quarter_def signed_value_def

lemma example_times:
  "utcfromtimestamp 1700000000 =
     \<lparr> year = 2023, month = 11, day = 14, hour = 22, minute = 13, second = 20 \<rparr>"
  "strftime (fromtimestamp utc 1700000000) = ''2023-11-14 22:13:20''"
  "strftime (fromtimestamp utc 1700000060) = ''2023-11-14 22:14:20''"
  "strftime (fromtimestamp utc_plus_1 1700000000) = ''2023-11-14 23:13:20''"
  "strftime (fromtimestamp utc_plus_1 1700000060) = ''2023-11-14 23:14:20''"
  by code_simp+

lemmas init_eval = windaq_init_def read_header_def read_nChannels_def unpack_defs unpack_from_def
  le_sint_def f64_of_bits_def f32_of_bits_def py_truediv_def f64_eval example_times(1)
  read_channel_info_def py_range_def read_channel_def upt_rec read_annotations_def aOffset_def
  decode_utf8_def char_of_def bit_Suc_0_iff read_npdata_def frombuffer_int16_def Let_def

lemma example_decodes: "windaq_init env example_wdq = Inr (example_recording env)"
  by (simp add: example_bytes init_eval example_recording_def example_hdr_def example_chan_def
      example_npdata_def)


section \<open>The claims\<close>

subsection \<open>C6: short buffers\<close>




subsection \<open>C4 and C7: the channel count\<close>

lemma read_nChannels_eq:
  assumes "4 \<le> length fc"
  shows "read_nChannels fc =
     Inr (if 144 \<le> uint (fc ! 2) + 256 * uint (fc ! 3) then uint (fc ! 0)
          else uint (fc ! 0) AND 31)"
proof -
  from assms obtain b0 b1 v0 v1 rest where fc: "fc = b0 # b1 # v0 # v1 # rest"
    by (auto simp add: eval_nat_numeral Suc_le_length_iff)
  show ?thesis
    by (simp add: fc read_nChannels_def unpack_UI_def unpack_B_def unpack_from_def)
qed

lemma read_header_nChannels:
  "read_header env fc = Inr h \<Longrightarrow> read_nChannels fc = Inr (nChannels h)"
  unfolding read_header_def by (auto simp add: py_bind_eq_Inr)

text \<open>
  C4: when the 16-bit little-endian field at offset 2 is at least 144 the channel count
  is the byte at offset 0, otherwise that byte masked with 31. Every file that decodes
  has the four bytes, and the channel count of the decoded object is the one read this
  way; field 143 with byte 37 gives 5 channels, field 144 with byte 37 gives 37.
\<close>

theorem channel_count_by_version:
  "(windaq_init env fc = Inr w \<longrightarrow>
      4 \<le> length fc \<and> read_nChannels fc = Inr (nChannels (hdr w))) \<and>
   (4 \<le> length fc \<longrightarrow>
      read_nChannels fc =
        Inr (if 144 \<le> uint (fc ! 2) + 256 * uint (fc ! 3) then uint (fc ! 0)
             else uint (fc ! 0) AND 31)) \<and>
   read_nChannels (37 # b1 # 143 # 0 # rest) = Inr 5 \<and>
   read_nChannels (37 # b1 # 144 # 0 # rest) = Inr 37"
proof -
  have a: "4 \<le> length fc \<and> read_nChannels fc = Inr (nChannels (hdr w))"
    if "windaq_init env fc = Inr w"
    using that read_header_length [of env fc "hdr w"] read_header_nChannels [of env fc "hdr w"]
    by (simp add: windaq_init_Inr)
  have b: "read_nChannels (37 # b1 # 143 # 0 # rest) = Inr 5"
    "read_nChannels (37 # b1 # 144 # 0 # rest) = Inr 37"
    by (simp_all add: read_nChannels_eq)
  show ?thesis
    using a b read_nChannels_eq [of fc] by blast
qed

theorem channel_count_by_version_witness:
  "windaq_init utc example_wdq = Inr (example_recording utc) \<and>
   4 \<le> length example_wdq \<and>
   read_nChannels example_wdq = Inr (nChannels (hdr (example_recording utc))) \<and>
   nChannels (hdr (example_recording utc)) = 2 \<and>
   read_nChannels example_wdq =
     Inr (if 144 \<le> uint (example_wdq ! 2) + 256 * uint (example_wdq ! 3)
          then uint (example_wdq ! 0) else uint (example_wdq ! 0) AND 31) \<and>
   read_nChannels (37 # 0 # 143 # 0 # []) = Inr 5 \<and>
   read_nChannels (37 # 0 # 144 # 0 # []) = Inr 37"
proof -
  have "4 \<le> length example_wdq" "uint (example_wdq ! 0) = 2"
    "uint (example_wdq ! 2) + 256 * uint (example_wdq ! 3) = 1"
    by (simp_all add: example_bytes)
  then show ?thesis
    using channel_count_by_version [of utc example_wdq "example_recording utc" 0 "[]"]
      example_decodes [of utc]
    by (simp add: example_recording_def example_hdr_def)
qed

text \<open>
  C7 says that every buffer whose channel count (read as in C4) is 0 fails with the
  error of an invalid channel count. The constructor has no check of the count: the
  error of a zero count is the ZeroDivisionError of line 70, and the division is
  reached only after the fields at offsets 4 to 11 are read. The buffer of 8 bytes
  below has the count 0 and fails with \<open>struct.error\<close>, the error of a short buffer.
\<close>

theorem zero_channel_count_counterexample:
  "read_nChannels [0, 0, 1, 0, 0, 0, 0, 0] = Inr 0 \<and>
   windaq_init utc [0, 0, 1, 0, 0, 0, 0, 0] = Inl StructError"
  by (simp add: windaq_init_def read_header_def read_nChannels_def unpack_defs unpack_from_def
      le_sint_def)

text \<open>
  C7, amended: a buffer of at least 12 bytes whose channel count is 0 fails with
  ZeroDivisionError, raised by the division of line 70 while the header is read; a
  buffer of fewer than 12 bytes whose channel count is 0 fails with \<open>struct.error\<close>.
\<close>

theorem zero_channel_count_fails:
  assumes "read_nChannels fc = Inr 0"
  shows "(12 \<le> length fc \<longrightarrow>
            read_header env fc = Inl ZeroDivisionError \<and>
            windaq_init env fc = Inl ZeroDivisionError) \<and>
         (length fc < 12 \<longrightarrow>
            read_header env fc = Inl StructError \<and>
            windaq_init env fc = Inl StructError)"
proof -
  have hd: "read_header env fc =
      py_bind (unpack_B fc 4) (\<lambda>hCh. py_bind (unpack_B fc 5) (\<lambda>hChSize.
      py_bind (unpack_I fc 6) (\<lambda>hSize. py_bind (unpack_UL fc 8) (\<lambda>dSize.
        Inl ZeroDivisionError))))"
    unfolding read_header_def by (simp add: assms py_truediv_def)
  have long: "read_header env fc = Inl ZeroDivisionError" if "12 \<le> length fc"
    unfolding hd using that by (simp add: unpack_defs unpack_from_nonneg)
  have short: "read_header env fc = Inl StructError" if "length fc < 12"
  proof -
    have "unpack_UL fc 8 = Inl StructError"
      using that by (simp add: unpack_UL_def unpack_from_nonneg)
    then show ?thesis
      unfolding hd
      by (cases "unpack_B fc 4"; cases "unpack_B fc 5"; cases "unpack_I fc 6")
        (auto dest: unpack_errors)
  qed
  show ?thesis
    using long short by (auto simp add: windaq_init_header_error)
qed

theorem zero_channel_count_fails_witness:
  "read_nChannels (0 # tl example_wdq) = Inr 0 \<and>
   12 \<le> length (0 # tl example_wdq) \<and>
   read_header utc (0 # tl example_wdq) = Inl ZeroDivisionError \<and>
   windaq_init utc (0 # tl example_wdq) = Inl ZeroDivisionError"
proof -
  have n: "read_nChannels (0 # tl example_wdq) = Inr 0"
    by (simp add: example_bytes read_nChannels_def unpack_defs unpack_from_def)
  show ?thesis
    using zero_channel_count_fails [OF n, of utc] n by (simp add: example_bytes)
qed

subsection \<open>C5 and C10: the annotations\<close>

lemma set_py_range: "set (py_range n) = {i. 0 \<le> i \<and> i < n}"
proof -
  have "i \<in> int ` {0..<nat n} \<longleftrightarrow> 0 \<le> i \<and> i < n" for i
    by (auto simp add: image_iff intro: bexI [of _ "nat i"])
  then show ?thesis
    by (auto simp add: py_range_def)
qed

lemma unpack_c_in_buffer:
  "0 \<le> k \<Longrightarrow> k < int (length fc) \<Longrightarrow> unpack_c fc k = Inr (fc ! nat k)"
  by (simp add: unpack_c_def unpack_from_nonneg take_Suc hd_drop_conv_nth)

lemma decode_utf8_Inr_iff: "(\<exists>s. decode_utf8 b = Inr s) \<longleftrightarrow> b < 0x80"
  by (simp add: decode_utf8_def)

lemma decode_utf8_error: "decode_utf8 b = Inl e \<Longrightarrow> e = UnicodeDecodeError \<and> 0x80 \<le> b"
  by (auto simp add: decode_utf8_def split: if_splits)

lemma read_anno_Inr_iff:
  "(\<exists>s. read_anno fc off acc is = Inr s) \<longleftrightarrow>
     (\<forall>i\<in>set is. \<exists>b. unpack_c fc (off + i) = Inr b \<and> b < 0x80)"
proof (induction "is" arbitrary: acc)
  case Nil
  then show ?case by simp
next
  case (Cons i rest)
  show ?case
  proof (cases "unpack_c fc (off + i)")
    case (Inl e)
    then show ?thesis by simp
  next
    case (Inr b)
    show ?thesis
    proof (cases "b < 0x80")
      case True
      then show ?thesis
        using Cons.IH [of "acc @ [char_of (unat b)]"] Inr by (simp add: decode_utf8_def)
    next
      case False
      then show ?thesis using Inr by (simp add: decode_utf8_def)
    qed
  qed
qed

lemma read_anno_error_in_buffer:
  assumes "read_anno fc off acc is = Inl e"
    and "\<forall>i\<in>set is. 0 \<le> off + i \<and> off + i < int (length fc)"
  shows "e = UnicodeDecodeError"
  using assms
proof (induction "is" arbitrary: acc)
  case Nil
  then show ?case by simp
next
  case (Cons i rest)
  have r: "unpack_c fc (off + i) = Inr (fc ! nat (off + i))"
    using Cons.prems(2) by (simp add: unpack_c_in_buffer)
  show ?case
  proof (cases "decode_utf8 (fc ! nat (off + i))")
    case (Inl e')
    then show ?thesis
      using Cons.prems(1) r decode_utf8_error [OF Inl] by simp
  next
    case (Inr s)
    then show ?thesis
      using Cons.prems r Cons.IH [of "acc @ s"] by simp
  qed
qed

lemma read_annotations_Inr_iff:
  "(\<exists>a. read_annotations fc h = Inr a) \<longleftrightarrow>
     (\<forall>i. 0 \<le> i \<and> i < annoSize h \<longrightarrow>
        (\<exists>b. unpack_c fc (aOffset h + i) = Inr b \<and> b < 0x80))"
proof -
  have "(\<exists>a. read_annotations fc h = Inr a) \<longleftrightarrow>
      (\<exists>s. read_anno fc (aOffset h) [] (py_range (annoSize h)) = Inr s)"
    by (auto simp add: read_annotations_def py_bind_eq_Inr)
  then show ?thesis
    by (simp add: read_anno_Inr_iff set_py_range)
qed

lemma bad_annotation_byte:
  assumes "0 \<le> aOffset h" "aOffset h + annoSize h \<le> int (length fc)"
    and "0 \<le> i" "i < annoSize h" "0x80 \<le> fc ! nat (aOffset h + i)"
  shows "read_annotations fc h = Inl UnicodeDecodeError"
proof (cases "read_anno fc (aOffset h) [] (py_range (annoSize h))")
  case (Inl e)
  have "\<forall>j\<in>set (py_range (annoSize h)). 0 \<le> aOffset h + j \<and> aOffset h + j < int (length fc)"
    using assms(1,2) by (auto simp add: set_py_range)
  from read_anno_error_in_buffer [OF Inl this] show ?thesis
    using Inl by (simp add: read_annotations_def)
next
  case (Inr s)
  then have "\<exists>b. unpack_c fc (aOffset h + i) = Inr b \<and> b < 0x80"
    using read_anno_Inr_iff [of fc "aOffset h" "[]" "py_range (annoSize h)"] assms(3,4)
    by (auto simp add: set_py_range)
  moreover have "unpack_c fc (aOffset h + i) = Inr (fc ! nat (aOffset h + i))"
    using assms(1-4) by (simp add: unpack_c_in_buffer)
  ultimately show ?thesis
    using assms(5) by auto
qed

lemma example_header_decodes: "read_header env example_wdq = Inr (example_hdr env)"
  using example_decodes [of env] by (simp add: windaq_init_Inr example_recording_def)

lemma example_channels_decode:
  "read_channel_info example_wdq (example_hdr env) = Inr example_chan"
  using example_decodes [of env] by (simp add: windaq_init_Inr example_recording_def)

text \<open>
  C5 says that bytes of the annotation region that do not decode as text leave the
  decode successful, with an empty annotation. The constructor has no handler around
  the decode of line 117: on the sample file with byte 221 (inside the annotations)
  set to 0xFF it raises UnicodeDecodeError and no object is built.
\<close>

theorem annotation_failure_counterexample:
  "windaq_init utc (example_wdq[221 := 0xFF]) = Inl UnicodeDecodeError"
  by (simp add: example_bytes init_eval)

text \<open>
  C5, amended: when the header and the channel table are read and the annotation
  region lies inside the buffer, a byte of the region that is 0x80 or more makes the
  constructor fail with UnicodeDecodeError; nothing is substituted for the annotation.
\<close>

theorem annotation_failure_aborts:
  assumes "read_header env fc = Inr h" "read_channel_info fc h = Inr ci"
    and "0 \<le> aOffset h" "aOffset h + annoSize h \<le> int (length fc)"
    and "0 \<le> i" "i < annoSize h" "0x80 \<le> fc ! nat (aOffset h + i)"
  shows "read_annotations fc h = Inl UnicodeDecodeError \<and>
         windaq_init env fc = Inl UnicodeDecodeError"
  using bad_annotation_byte [OF assms(3-7)] assms(1,2) by (simp add: windaq_init_def)

theorem annotation_failure_aborts_witness:
  "read_header utc (example_wdq[221 := 0xFF]) =
     Inr (example_hdr utc) \<and>
   read_channel_info (example_wdq[221 := 0xFF]) (example_hdr utc) = Inr example_chan \<and>
   aOffset (example_hdr utc) = 220 \<and> annoSize (example_hdr utc) = 8 \<and>
   length (example_wdq[221 := 0xFF]) = 228 \<and>
   (example_wdq[221 := 0xFF]) ! 221 = 0xFF \<and>
   read_annotations (example_wdq[221 := 0xFF]) (example_hdr utc) = Inl UnicodeDecodeError \<and>
   windaq_init utc (example_wdq[221 := 0xFF]) = Inl UnicodeDecodeError"
proof -
  have h: "read_header utc (example_wdq[221 := 0xFF]) = Inr (example_hdr utc)"
    by (simp add: example_bytes init_eval example_hdr_def)
  have c: "read_channel_info (example_wdq[221 := 0xFF]) (example_hdr utc) = Inr example_chan"
    by (simp add: example_bytes init_eval example_hdr_def example_chan_def)
  have a: "aOffset (example_hdr utc) = 220" "annoSize (example_hdr utc) = 8"
    "length (example_wdq[221 := 0xFF]) = 228" "(example_wdq[221 := 0xFF]) ! 221 = 0xFF"
    by (simp_all add: example_bytes aOffset_def example_hdr_def)
  show ?thesis
    using annotation_failure_aborts [OF h c, of 1] h c a by simp
qed

text \<open>
  C10: the annotation region is decoded one byte at a time. The annotations are read
  exactly when every byte of the region can be read and is below 0x80; a file that
  decodes has only such bytes in the region, and a readable byte of 0x80 or more in
  the region (such as either byte of a two-byte UTF-8 character) makes the whole
  constructor fail.
\<close>

theorem annotations_ascii_only:
  "((\<exists>a. read_annotations fc h = Inr a) \<longleftrightarrow>
      (\<forall>i. 0 \<le> i \<and> i < annoSize h \<longrightarrow>
         (\<exists>b. unpack_c fc (aOffset h + i) = Inr b \<and> b < 0x80))) \<and>
   (windaq_init env fc = Inr w \<and> 0 \<le> j \<and> j < annoSize (hdr w) \<longrightarrow>
      0 \<le> aOffset (hdr w) + j \<and> aOffset (hdr w) + j < int (length fc) \<longrightarrow>
      fc ! nat (aOffset (hdr w) + j) < 0x80) \<and>
   (read_header env fc = Inr h \<and> 0 \<le> j \<and> j < annoSize h \<and>
    0 \<le> aOffset h + j \<and> aOffset h + j < int (length fc) \<and>
    0x80 \<le> fc ! nat (aOffset h + j) \<longrightarrow> (\<exists>e. windaq_init env fc = Inl e))"
proof -
  have key: "fc ! nat (aOffset h' + j) < 0x80"
    if "read_annotations fc h' = Inr a" "0 \<le> j" "j < annoSize h'"
      "0 \<le> aOffset h' + j" "aOffset h' + j < int (length fc)" for h' a
  proof -
    from that(1-3) obtain b where "unpack_c fc (aOffset h' + j) = Inr b" "b < 0x80"
      using read_annotations_Inr_iff [of fc h'] by blast
    then show ?thesis
      using that(4,5) by (simp add: unpack_c_in_buffer)
  qed
  have 2: "fc ! nat (aOffset (hdr w) + j) < 0x80"
    if "windaq_init env fc = Inr w" "0 \<le> j" "j < annoSize (hdr w)"
      "0 \<le> aOffset (hdr w) + j" "aOffset (hdr w) + j < int (length fc)"
    using that key [of "hdr w" "annotations w"] by (simp add: windaq_init_Inr)
  have 3: "\<exists>e. windaq_init env fc = Inl e"
    if "read_header env fc = Inr h" "0 \<le> j" "j < annoSize h"
      "0 \<le> aOffset h + j" "aOffset h + j < int (length fc)" "0x80 \<le> fc ! nat (aOffset h + j)"
  proof (cases "windaq_init env fc")
    case (Inl e)
    then show ?thesis by simp
  next
    case (Inr w')
    then have "hdr w' = h"
      using that(1) by (simp add: windaq_init_Inr)
    then show ?thesis
      using 2 [of ] that Inr key [of h "annotations w'"] by (auto simp add: windaq_init_Inr)
  qed
  show ?thesis
    using read_annotations_Inr_iff [of fc h] 2 3 by blast
qed

theorem annotations_ascii_only_witness:
  "read_header utc (example_wdq[220 := 0xC3, 221 := 0xA9]) = Inr (example_hdr utc) \<and>
   aOffset (example_hdr utc) + 1 = 221 \<and> (1::int) < annoSize (example_hdr utc) \<and>
   length (example_wdq[220 := 0xC3, 221 := 0xA9]) = 228 \<and>
   (example_wdq[220 := 0xC3, 221 := 0xA9]) ! 221 = 0xA9 \<and>
   (\<exists>e. windaq_init utc (example_wdq[220 := 0xC3, 221 := 0xA9]) = Inl e) \<and>
   windaq_init utc example_wdq = Inr (example_recording utc) \<and>
   example_wdq ! nat (aOffset (hdr (example_recording utc)) + 1) < 0x80"
proof -
  have h: "read_header utc (example_wdq[220 := 0xC3, 221 := 0xA9]) = Inr (example_hdr utc)"
    by (simp add: example_bytes init_eval example_hdr_def)
  have a: "aOffset (example_hdr utc) + 1 = 221" "(1::int) < annoSize (example_hdr utc)"
    "length (example_wdq[220 := 0xC3, 221 := 0xA9]) = 228"
    "(example_wdq[220 := 0xC3, 221 := 0xA9]) ! 221 = 0xA9"
    "hdr (example_recording utc) = example_hdr utc" "length example_wdq = 228"
    by (simp_all add: example_bytes aOffset_def example_hdr_def example_recording_def)
  show ?thesis
    using annotations_ascii_only [of "example_wdq[220 := 0xC3, 221 := 0xA9]" "example_hdr utc"
        utc "example_recording utc" 1]
      annotations_ascii_only [of example_wdq "example_hdr utc" utc "example_recording utc" 1]
      h a example_decodes [of utc]
    by simp
qed

subsection \<open>C9: the execution environment\<close>

lemma read_header_local_times:
  "read_header env fc =
     py_bind (read_header utc fc) (\<lambda>h.
     py_bind (unpack_L fc 36) (\<lambda>e14.
     py_bind (unpack_L fc 40) (\<lambda>e15.
       Inr (h\<lparr> fileCreated := strftime (fromtimestamp env e14),
                fileWritten := strftime (fromtimestamp env e15) \<rparr>))))"
  unfolding read_header_def
  by (cases "read_nChannels fc"; simp; cases "unpack_B fc 4"; simp; cases "unpack_B fc 5"; simp;
      cases "unpack_I fc 6"; simp; cases "unpack_UL fc 8"; simp;
      cases "py_truediv (projr (unpack_UL fc 8)) (2 * projr (read_nChannels fc))"; simp;
      cases "unpack_UL fc 12"; simp; cases "unpack_UI fc 16"; simp; cases "unpack_D fc 28"; simp;
      cases "unpack_L fc 36"; simp; cases "unpack_L fc 40"; simp; cases "unpack_UI fc 100"; simp)

lemma read_channels_times [simp]:
  "read_channels fc (h\<lparr> fileCreated := a, fileWritten := b \<rparr>) ci chs = read_channels fc h ci chs"
  by (induction chs arbitrary: ci) (simp_all add: read_channel_def)

lemma stages_times [simp]:
  "read_channel_info fc (h\<lparr> fileCreated := a, fileWritten := b \<rparr>) = read_channel_info fc h"
  "read_annotations fc (h\<lparr> fileCreated := a, fileWritten := b \<rparr>) = read_annotations fc h"
  "read_npdata fc (h\<lparr> fileCreated := a, fileWritten := b \<rparr>) = read_npdata fc h"
  by (simp_all add: read_channel_info_def read_annotations_def aOffset_def read_npdata_def)

lemma windaq_init_local_times:
  "windaq_init env fc =
     py_bind (windaq_init utc fc) (\<lambda>w.
     py_bind (unpack_L fc 36) (\<lambda>e14.
     py_bind (unpack_L fc 40) (\<lambda>e15.
       Inr (w\<lparr> hdr := (hdr w)\<lparr> fileCreated := strftime (fromtimestamp env e14),
                                fileWritten := strftime (fromtimestamp env e15) \<rparr> \<rparr>))))"
proof (cases "read_header utc fc")
  case (Inl e)
  then show ?thesis
    by (simp add: windaq_init_def read_header_local_times [of env])
next
  case (Inr h)
  then obtain e14 e15 where e: "unpack_L fc 36 = Inr e14" "unpack_L fc 40 = Inr e15"
    unfolding read_header_def by (auto simp add: py_bind_eq_Inr)
  show ?thesis
    unfolding windaq_init_def read_header_local_times [of env] Inr
    by (cases "read_channel_info fc h"; simp add: e; cases "read_annotations fc h"; simp;
        cases "read_npdata fc h"; simp)
qed

text \<open>
  C9 says that two runs of the decode on equal buffers give equal recordings in every
  field, the time stamps included, whatever the execution environment. Lines 79 and 80
  format the two time stamps with \<open>datetime.fromtimestamp\<close>, in the local time zone of
  the process: the sample file decoded under UTC and under UTC+1 gives two different
  objects.
\<close>

theorem decode_environment_counterexample:
  "windaq_init utc example_wdq = Inr (example_recording utc) \<and>
   windaq_init utc_plus_1 example_wdq = Inr (example_recording utc_plus_1) \<and>
   fileCreated (hdr (example_recording utc)) = ''2023-11-14 22:13:20'' \<and>
   fileCreated (hdr (example_recording utc_plus_1)) = ''2023-11-14 23:13:20'' \<and>
   windaq_init utc example_wdq \<noteq> windaq_init utc_plus_1 example_wdq"
proof -
  have "example_recording utc \<noteq> example_recording utc_plus_1"
    by (simp add: example_recording_def example_hdr_def example_times)
  then show ?thesis
    by (simp add: example_decodes example_recording_def example_hdr_def example_times)
qed

lemma read_header_times:
  "read_header env fc = Inr h \<Longrightarrow>
     \<exists>e14 e15. unpack_L fc 36 = Inr e14 \<and> unpack_L fc 40 = Inr e15 \<and>
       fileCreatedRaw h = utcfromtimestamp e14 \<and>
       fileCreated h = strftime (fromtimestamp env e14) \<and>
       fileWritten h = strftime (fromtimestamp env e15)"
  unfolding read_header_def by (auto simp add: py_bind_eq_Inr)

text \<open>
  C9, amended: for any two local time zones, on a platform where the conversions of
  lines 78 to 80 return for every 32-bit time stamp (as they do on POSIX systems with
  the default warning filters) and other things equal, the decodes of one buffer fail
  alike, with the same exception, or give objects that differ at most in the two
  formatted local times \<open>fileCreated\<close> and \<open>fileWritten\<close>; every other field, the UTC
  time \<open>fileCreatedRaw\<close> included, is the same under both time zones.
\<close>

theorem decode_depends_on_time_zone_only:
  "(windaq_init env1 fc = Inl e \<longrightarrow> windaq_init env2 fc = Inl e) \<and>
   (windaq_init env1 fc = Inr w \<longrightarrow>
      (\<exists>e14 e15. unpack_L fc 36 = Inr e14 \<and> unpack_L fc 40 = Inr e15 \<and>
         fileCreatedRaw (hdr w) = utcfromtimestamp e14 \<and>
         fileCreated (hdr w) = strftime (fromtimestamp env1 e14) \<and>
         fileWritten (hdr w) = strftime (fromtimestamp env1 e15) \<and>
         windaq_init env2 fc =
           Inr (w\<lparr> hdr := (hdr w)\<lparr> fileCreated := strftime (fromtimestamp env2 e14),
                                    fileWritten := strftime (fromtimestamp env2 e15) \<rparr> \<rparr>)))"
proof (cases "windaq_init utc fc")
  case (Inl e')
  then show ?thesis
    by (simp add: windaq_init_local_times [of env1] windaq_init_local_times [of env2])
next
  case (Inr w0)
  then have "read_header utc fc = Inr (hdr w0)"
    by (simp add: windaq_init_Inr)
  from read_header_times [OF this]
  obtain e14 e15 where e: "unpack_L fc 36 = Inr e14" "unpack_L fc 40 = Inr e15"
    "fileCreatedRaw (hdr w0) = utcfromtimestamp e14"
    by blast
  show ?thesis
    using e(3) by (auto simp add: windaq_init_local_times [of env1]
        windaq_init_local_times [of env2] Inr e(1,2))
qed

theorem decode_depends_on_time_zone_only_witness:
  "windaq_init utc example_wdq = Inr (example_recording utc) \<and>
   (\<exists>e14 e15. unpack_L example_wdq 36 = Inr e14 \<and> unpack_L example_wdq 40 = Inr e15 \<and>
      fileCreatedRaw (hdr (example_recording utc)) = utcfromtimestamp e14 \<and>
      fileCreated (hdr (example_recording utc)) = strftime (fromtimestamp utc e14) \<and>
      fileWritten (hdr (example_recording utc)) = strftime (fromtimestamp utc e15) \<and>
      windaq_init utc_plus_1 example_wdq =
        Inr ((example_recording utc)
          \<lparr> hdr := (hdr (example_recording utc))
              \<lparr> fileCreated := strftime (fromtimestamp utc_plus_1 e14),
                fileWritten := strftime (fromtimestamp utc_plus_1 e15) \<rparr> \<rparr>))"
  using decode_depends_on_time_zone_only [of utc example_wdq StructError utc_plus_1
      "example_recording utc"] example_decodes [of utc]
  by simp

subsection \<open>C8: the channel entries\<close>

lemma read_channel_Inr:
  assumes "read_channel fc h ci ch = Inr ci'"
  obtains slope icpt cal calIcpt units dv phy where
    "unpack_F fc (hChannels h + hChannelSize h * ch) = Inr slope"
    "unpack_F fc (hChannels h + hChannelSize h * ch + 4) = Inr icpt"
    "unpack_D fc (hChannels h + hChannelSize h * ch + 8) = Inr cal"
    "unpack_D fc (hChannels h + hChannelSize h * ch + 16) = Inr calIcpt"
    "unpack_cccccc fc (hChannels h + hChannelSize h * ch + 24) = Inr units"
    "if packed h \<noteq> 0 then unpack_B fc (hChannels h + hChannelSize h * ch + 31) = Inr dv
     else dv = 1"
    "unpack_B fc (hChannels h + hChannelSize h * ch + 32) = Inr phy"
    "ci' = \<lparr> scalingSlope = scalingSlope ci @ [slope],
             scalingIntercept = scalingIntercept ci @ [icpt],
             calScaling = calScaling ci @ [cal],
             calIntercept = calIntercept ci @ [calIcpt],
             engUnits = engUnits ci @ [units],
             sampleRateDivisor = sampleRateDivisor ci @ [dv],
             phyChannel = phyChannel ci @ [phy] \<rparr>"
proof -
  from assms obtain slope icpt cal calIcpt units dv phy where
    "unpack_F fc (hChannels h + hChannelSize h * ch) = Inr slope"
    "unpack_F fc (hChannels h + hChannelSize h * ch + 4) = Inr icpt"
    "unpack_D fc (hChannels h + hChannelSize h * ch + 4 + 4) = Inr cal"
    "unpack_D fc (hChannels h + hChannelSize h * ch + 4 + 4 + 8) = Inr calIcpt"
    "unpack_cccccc fc (hChannels h + hChannelSize h * ch + 4 + 4 + 8 + 8) = Inr units"
    "(if packed h \<noteq> 0
      then unpack_B fc (hChannels h + hChannelSize h * ch + 4 + 4 + 8 + 8 + 6 + 1)
      else Inr 1) = Inr dv"
    "unpack_B fc (hChannels h + hChannelSize h * ch + 4 + 4 + 8 + 8 + 6 + 1 + 1) = Inr phy"
    "ci' = \<lparr> scalingSlope = scalingSlope ci @ [slope],
             scalingIntercept = scalingIntercept ci @ [icpt],
             calScaling = calScaling ci @ [cal],
             calIntercept = calIntercept ci @ [calIcpt],
             engUnits = engUnits ci @ [units],
             sampleRateDivisor = sampleRateDivisor ci @ [dv],
             phyChannel = phyChannel ci @ [phy] \<rparr>"
    unfolding read_channel_def Let_def py_bind_eq_Inr by blast
  then show ?thesis
    by (intro that [of slope icpt cal calIcpt units dv phy])
      (simp_all add: add.assoc split: if_splits)
qed

lemma read_channel_step:
  assumes "read_channel fc h ci ch = Inr ci'" "uniform ci m"
  shows "uniform ci' (Suc m)" "extends ci ci' m" "entry_at fc h ci' ch m"
proof -
  from assms(1) obtain slope icpt cal calIcpt units dv phy where r:
    "unpack_F fc (hChannels h + hChannelSize h * ch) = Inr slope"
    "unpack_F fc (hChannels h + hChannelSize h * ch + 4) = Inr icpt"
    "unpack_D fc (hChannels h + hChannelSize h * ch + 8) = Inr cal"
    "unpack_D fc (hChannels h + hChannelSize h * ch + 16) = Inr calIcpt"
    "unpack_cccccc fc (hChannels h + hChannelSize h * ch + 24) = Inr units"
    "if packed h \<noteq> 0 then unpack_B fc (hChannels h + hChannelSize h * ch + 31) = Inr dv
     else dv = 1"
    "unpack_B fc (hChannels h + hChannelSize h * ch + 32) = Inr phy"
    and ci': "ci' = \<lparr> scalingSlope = scalingSlope ci @ [slope],
             scalingIntercept = scalingIntercept ci @ [icpt],
             calScaling = calScaling ci @ [cal],
             calIntercept = calIntercept ci @ [calIcpt],
             engUnits = engUnits ci @ [units],
             sampleRateDivisor = sampleRateDivisor ci @ [dv],
             phyChannel = phyChannel ci @ [phy] \<rparr>"
    by (rule read_channel_Inr)
  show "uniform ci' (Suc m)"
    using assms(2) by (simp add: ci' uniform_def)
  show "extends ci ci' m"
    using assms(2) by (simp add: ci' uniform_def extends_def)
  show "entry_at fc h ci' ch m"
    using assms(2) r by (simp add: ci' uniform_def entry_at_def Let_def nth_append)
qed

lemma extends_nth:
  assumes "extends ci ci' (Suc m)"
  shows "scalingSlope ci' ! m = scalingSlope ci ! m"
    "scalingIntercept ci' ! m = scalingIntercept ci ! m"
    "calScaling ci' ! m = calScaling ci ! m"
    "calIntercept ci' ! m = calIntercept ci ! m"
    "engUnits ci' ! m = engUnits ci ! m"
    "sampleRateDivisor ci' ! m = sampleRateDivisor ci ! m"
    "phyChannel ci' ! m = phyChannel ci ! m"
  using assms unfolding extends_def
  by (metis lessI nth_take)+

lemma take_via_Suc:
  assumes "take m ys = xs" "take (Suc m) zs = ys"
  shows "take m zs = xs"
proof -
  have "take m zs = take m (take (Suc m) zs)"
    by (simp add: min_def)
  then show ?thesis
    using assms by simp
qed

lemma extends_trans:
  assumes "extends ci ci1 m" "extends ci1 ci' (Suc m)"
  shows "extends ci ci' m"
proof -
  note t = take_via_Suc [where m = m]
  from assms show ?thesis
    unfolding extends_def
    by (elim conjE, intro conjI) (rule t, assumption, assumption)+
qed

lemma read_channels_inv:
  assumes "read_channels fc h ci chs = Inr ci'" "uniform ci m"
  shows "uniform ci' (m + length chs) \<and> extends ci ci' m \<and>
         (\<forall>j<length chs. entry_at fc h ci' (chs ! j) (m + j))"
  using assms
proof (induction chs arbitrary: ci m)
  case Nil
  then show ?case by (simp add: uniform_def extends_def)
next
  case (Cons ch rest)
  from Cons.prems(1) obtain ci1 where
    step: "read_channel fc h ci ch = Inr ci1" and rest: "read_channels fc h ci1 rest = Inr ci'"
    by (auto simp add: py_bind_eq_Inr)
  note s = read_channel_step [OF step Cons.prems(2)]
  have ih: "uniform ci' (Suc m + length rest)" "extends ci1 ci' (Suc m)"
    "\<forall>j<length rest. entry_at fc h ci' (rest ! j) (Suc m + j)"
    using Cons.IH [OF rest s(1)] by simp_all
  have first: "entry_at fc h ci' ch m"
    using s(3) unfolding entry_at_def extends_nth [OF ih(2)] .
  have "entry_at fc h ci' ((ch # rest) ! j) (m + j)" if "j < length (ch # rest)" for j
  proof (cases j)
    case 0
    then show ?thesis using first by simp
  next
    case (Suc i)
    then show ?thesis using ih(3) that by simp
  qed
  then show ?case
    using ih(1) extends_trans [OF s(2) ih(2)] by simp
qed

lemma read_channel_info_entries:
  assumes "read_channel_info fc h = Inr ci"
  shows "uniform ci (nat (nChannels h))"
    and "j < nat (nChannels h) \<Longrightarrow> entry_at fc h ci (int j) j"
proof -
  have u: "uniform \<lparr> scalingSlope = [], scalingIntercept = [], calScaling = [],
      calIntercept = [], engUnits = [], sampleRateDivisor = [], phyChannel = [] \<rparr> 0"
    by (simp add: uniform_def)
  note inv = read_channels_inv [OF assms [unfolded read_channel_info_def] u]
  show "uniform ci (nat (nChannels h))"
    using inv by (simp add: py_range_def)
  show "entry_at fc h ci (int j) j" if "j < nat (nChannels h)"
    using inv that by (simp add: py_range_def)
qed

text \<open>
  C8 says that the divisor byte follows the 6-byte unit tag only in a packed file and
  that the offset of the physical channel number shifts by one byte with it. The loop
  reads at fixed offsets: in the sample file, which is not packed, the physical
  channel number of the first channel is the byte at offset 32 of the entry (1), not
  the byte after the unit tag (0); in the same file marked as packed, the divisor is
  the byte at offset 31 (4), not the one at offset 30, and the physical channel number
  is still the byte at offset 32.
\<close>

theorem channel_entry_layout_counterexample:
  "windaq_init utc example_wdq = Inr (example_recording utc) \<and>
   packed (hdr (example_recording utc)) = 0 \<and>
   phyChannel (chan (example_recording utc)) ! 0 = 1 \<and>
   unpack_B example_wdq (110 + spec_phy_offset 0) = Inr 0 \<and>
   windaq_init utc (example_wdq[101 := 64]) =
     Inr ((example_recording utc)
       \<lparr> fcontents := example_wdq[101 := 64],
         hdr := (example_hdr utc)\<lparr> packed := 1 \<rparr>,
         chan := example_chan\<lparr> sampleRateDivisor := [4, 2] \<rparr> \<rparr>) \<and>
   unpack_B (example_wdq[101 := 64]) (110 + spec_divisor_offset) = Inr 0 \<and>
   unpack_B (example_wdq[101 := 64]) (110 + spec_phy_offset 1) = Inr 4"
proof -
  have "windaq_init utc (example_wdq[101 := 64]) =
     Inr ((example_recording utc)
       \<lparr> fcontents := example_wdq[101 := 64],
         hdr := (example_hdr utc)\<lparr> packed := 1 \<rparr>,
         chan := example_chan\<lparr> sampleRateDivisor := [4, 2] \<rparr> \<rparr>)"
    by (simp add: example_bytes init_eval example_recording_def example_hdr_def example_chan_def
        example_npdata_def)
  moreover have "unpack_B example_wdq (110 + spec_phy_offset 0) = Inr 0"
    "unpack_B (example_wdq[101 := 64]) (110 + spec_divisor_offset) = Inr 0"
    "unpack_B (example_wdq[101 := 64]) (110 + spec_phy_offset 1) = Inr 4"
    by (simp_all add: example_bytes unpack_B_def unpack_from_def spec_phy_offset_def
        spec_divisor_offset_def)
  ultimately show ?thesis
    by (simp add: example_decodes) (simp add: example_recording_def example_hdr_def example_chan_def)
qed

text \<open>
  C8, amended: for every decoded recording and every channel entry, the fields are read
  at fixed offsets of the entry: slope (f32) at 0, intercept (f32) at 4, calibration
  scale (f64) at 8, calibration intercept (f64) at 16, the 6-byte unit tag at 24, the
  divisor byte at 31 when the file is packed (the divisor is 1 otherwise), and the
  physical channel number at 32 whether the file is packed or not.
\<close>

theorem channel_entry_layout:
  assumes "windaq_init env fc = Inr w" "0 \<le> k" "k < nChannels (hdr w)"
  shows "let off = hChannels (hdr w) + hChannelSize (hdr w) * k
         in unpack_F fc off = Inr (scalingSlope (chan w) ! nat k) \<and>
            unpack_F fc (off + 4) = Inr (scalingIntercept (chan w) ! nat k) \<and>
            unpack_D fc (off + 8) = Inr (calScaling (chan w) ! nat k) \<and>
            unpack_D fc (off + 16) = Inr (calIntercept (chan w) ! nat k) \<and>
            unpack_cccccc fc (off + 24) = Inr (engUnits (chan w) ! nat k) \<and>
            (if packed (hdr w) \<noteq> 0
             then unpack_B fc (off + 31) = Inr (sampleRateDivisor (chan w) ! nat k)
             else sampleRateDivisor (chan w) ! nat k = 1) \<and>
            unpack_B fc (off + 32) = Inr (phyChannel (chan w) ! nat k)"
proof -
  have c: "read_channel_info fc (hdr w) = Inr (chan w)"
    using assms(1) by (simp add: windaq_init_Inr)
  have "nat k < nat (nChannels (hdr w))"
    using assms(2,3) by simp
  from read_channel_info_entries(2) [OF c this] show ?thesis
    using assms(2) by (simp add: entry_at_def)
qed

theorem channel_entry_layout_witness:
  "windaq_init utc example_wdq = Inr (example_recording utc) \<and>
   (1::int) < nChannels (hdr (example_recording utc)) \<and>
   unpack_D example_wdq (110 + 36 * 1 + 8) = Inr (Finite False 2) \<and>
   calScaling (chan (example_recording utc)) ! nat 1 = Finite False 2 \<and>
   unpack_B example_wdq (110 + 36 * 1 + 32) = Inr (phyChannel (chan (example_recording utc)) ! nat 1) \<and>
   sampleRateDivisor (chan (example_recording utc)) ! nat 1 = 1"
  using channel_entry_layout [of utc example_wdq "example_recording utc" 1]
    example_decodes [of utc]
  by (simp add: example_recording_def example_hdr_def example_chan_def Let_def)

subsection \<open>Exact binary64 results and strided slices\<close>

lemma ilog2_upper:
  assumes "0 < q" "q < 2 ^ m" "0 < m"
  shows "ilog2 q \<le> int m - 1"
proof (cases "1 \<le> q")
  case True
  have "\<lfloor>q\<rfloor> < 2 ^ m"
    using assms(2) by (simp add: floor_less_iff)
  then have "nat \<lfloor>q\<rfloor> < 2 ^ m"
    using True by (simp add: nat_less_iff)
  then have "floorlog 2 (nat \<lfloor>q\<rfloor>) \<le> m"
    by (simp add: floorlog_le_iff)
  then show ?thesis
    using True by (simp add: ilog2_def)
next
  case False
  then show ?thesis
    using assms(3) by (simp add: ilog2_def)
qed

lemma round_half_even_of_int [simp]: "round_half_even (of_int z) = z"
  by (simp add: round_half_even_def)

lemma round_f64_dyadic:
  assumes "0 < k" "k < 2 ^ 50" "j \<le> 2"
  shows "round_f64 s (of_int k / 2 ^ j) = Finite s (of_int k / 2 ^ j)"
proof -
  define q :: rat where "q = of_int k / 2 ^ j"
  define e where "e = max (ilog2 q) (- 1022) - 52"
  define n where "n = nat (- e)"
  have qpos: "0 < q"
    using assms(1) by (simp add: q_def)
  have "q \<le> of_int k"
    using assms(1) by (simp add: q_def divide_le_eq)
  also have "(of_int k :: rat) < 2 ^ 50"
    using assms(2) by (metis of_int_less_iff of_int_numeral of_int_power)
  finally have qlt: "q < 2 ^ 50" .
  have "ilog2 q \<le> 49"
    using ilog2_upper [OF qpos qlt] by simp
  then have e_le: "e \<le> - 3" and e_ge: "- 1074 \<le> e"
    by (simp_all add: e_def)
  then have n: "3 \<le> n" "e = - int n"
    by (simp_all add: n_def)
  have p: "pow2 e = 1 / 2 ^ n"
    using e_le by (simp add: pow2_def n_def)
  have "q / pow2 e = of_int k * (2 ^ n / 2 ^ j)"
    by (simp add: p q_def)
  also have "(2 :: rat) ^ n / 2 ^ j = 2 ^ (n - j)"
    using n(1) assms(3) by (simp add: power_diff)
  also have "of_int k * (2 :: rat) ^ (n - j) = of_int (k * 2 ^ (n - j))"
    by simp
  finally have "round_half_even (q / pow2 e) = k * 2 ^ (n - j)"
    by (simp only: round_half_even_of_int)
  then have "of_int (round_half_even (q / pow2 e)) * pow2 e = of_int k * (2 ^ (n - j) / 2 ^ n)"
    by (simp add: p)
  also have "(2 :: rat) ^ (n - j) / 2 ^ n = 1 / 2 ^ j"
  proof -
    have "(2 :: rat) ^ n = 2 ^ (n - j) * 2 ^ j"
      using n(1) assms(3) by (simp flip: power_add)
    then show ?thesis by simp
  qed
  finally have v: "of_int (round_half_even (q / pow2 e)) * pow2 e = q"
    by (simp add: q_def)
  have "\<not> pow2 1024 \<le> q"
  proof -
    have "(2 :: rat) ^ 50 \<le> 2 ^ 1024"
      by (rule power_increasing) simp_all
    then show ?thesis using qlt by (simp add: pow2_def)
  qed
  then show ?thesis
    using qpos v unfolding round_f64_def Let_def q_def [symmetric] e_def [symmetric]
    by simp
qed

lemma round_f64_int:
  assumes "0 \<le> k" "k < 2 ^ 50"
  shows "round_f64 s (of_int k) = Finite s (of_int k)"
proof (cases "k = 0")
  case True
  then show ?thesis by (simp add: round_f64_def)
next
  case False
  then show ?thesis
    using round_f64_dyadic [of k 0 s] assms by simp
qed

lemma round_f64_quarter:
  assumes "0 \<le> k" "k < 2 ^ 50"
  shows "round_f64 s (of_int k / 4) = Finite s (of_int k / 4)"
proof (cases "k = 0")
  case True
  then show ?thesis by (simp add: round_f64_def)
next
  case False
  then show ?thesis
    using round_f64_dyadic [of k 2 s] assms by simp
qed

lemma f64_of_int_exact: "\<bar>r\<bar> < 2 ^ 50 \<Longrightarrow> f64_of_int r = Finite (r < 0) (of_int \<bar>r\<bar>)"
  unfolding f64_of_int_def by (rule round_f64_int) simp_all

lemma quarter_exact:
  assumes "\<bar>r\<bar> < 2 ^ 50"
  shows "f64_mul (f64_of_int r) quarter = Finite (r < 0) (of_int \<bar>r\<bar> / 4)"
  using round_f64_quarter [of "\<bar>r\<bar>" "r < 0"] assms
  by (simp add: f64_of_int_exact quarter_def)

lemma quarter_floor_exact:
  assumes "\<bar>r\<bar> < 2 ^ 50"
  shows "f64_floor (f64_mul (f64_of_int r) quarter) = Finite (r < 0) (of_int \<bar>r div 4\<bar>)"
proof -
  have fl: "\<lfloor>(of_int r :: rat) / 4\<rfloor> = r div 4"
    using floor_divide_of_int_eq [of r 4, where ?'a = rat] by simp
  show ?thesis
  proof (cases "r < 0")
    case True
    then have "r div 4 < 0" by simp
    then show ?thesis
      using True by (simp add: quarter_exact [OF assms] Let_def fl signed_value_def)
  next
    case False
    then have "0 \<le> r div 4" by simp
    then show ?thesis
      using False by (simp add: quarter_exact [OF assms] Let_def fl signed_value_def)
  qed
qed

lemma length_every_nth:
  "0 < n \<Longrightarrow> length (every_nth n xs) = (length xs + n - 1) div n"
proof (induction n xs rule: every_nth.induct)
  case (1 n)
  then show ?case by simp
next
  case (2 n x xs)
  show ?case
  proof (cases "n - 1 \<le> length xs")
    case True
    then have "length xs - (n - 1) + n - 1 = length xs"
      using "2.prems" by simp
    then show ?thesis
      using "2.IH" "2.prems" by simp
  next
    case False
    then have "length xs - (n - 1) + n - 1 = n - 1" and "(length xs + n) div n = 1"
      using "2.prems" by (simp_all add: div_nat_eqI)
    then show ?thesis
      using "2.IH" "2.prems" by simp
  qed
qed

lemma nth_every_nth:
  "0 < n \<Longrightarrow> j < length (every_nth n xs) \<Longrightarrow> every_nth n xs ! j = xs ! (j * n)"
proof (induction n xs arbitrary: j rule: every_nth.induct)
  case (1 n)
  then show ?case by simp
next
  case (2 n x xs)
  show ?case
  proof (cases j)
    case 0
    then show ?thesis by simp
  next
    case (Suc i)
    then have i: "i < length (every_nth n (drop (n - 1) xs))"
      using "2.prems" by simp
    then have "drop (n - 1) xs \<noteq> []"
      by auto
    then have le: "n - 1 \<le> length xs"
      by simp
    have "every_nth n (drop (n - 1) xs) ! i = drop (n - 1) xs ! (i * n)"
      using "2.IH" "2.prems"(1) i by simp
    also have "\<dots> = xs ! (n - 1 + i * n)"
      using le by simp
    also have "\<dots> = (x # xs) ! (Suc i * n)"
      using "2.prems"(1) by (cases n) (simp_all add: ac_simps)
    finally show ?thesis
      using Suc by simp
  qed
qed

lemma every_nth_eq:
  "0 < n \<Longrightarrow> every_nth n xs = map (\<lambda>j. xs ! (j * n)) [0..<(length xs + n - 1) div n]"
  by (rule nth_equalityI) (simp_all add: length_every_nth nth_every_nth)

lemma py_slice_step_channel:
  assumes "0 < n" "0 \<le> k"
  shows "py_slice_step xs k n =
     Inr (map (\<lambda>j. xs ! (nat k + j * nat n)) [0..<(length xs - nat k + nat n - 1) div nat n])"
proof (cases "nat k \<le> length xs")
  case True
  then have "min k (int (length xs)) = k"
    using assms(2) by simp
  then show ?thesis
    using assms True by (simp add: py_slice_step_def every_nth_eq Let_def)
next
  case False
  then have "min k (int (length xs)) = int (length xs)"
    by simp
  then show ?thesis
    using assms False by (simp add: py_slice_step_def Let_def)
qed


lemma round_f64_numeral [simp]:
  "(numeral n :: int) < 2 ^ 50 \<Longrightarrow> round_f64 s (numeral n) = Finite s (numeral n)"
  using round_f64_int [of "numeral n" s] by simp

lemma round_f64_numeral_half [simp]:
  "(numeral n :: int) < 2 ^ 50 \<Longrightarrow> round_f64 s (numeral n / 2) = Finite s (numeral n / 2)"
  using round_f64_dyadic [of "numeral n" 1 s] by simp

lemma round_f64_numeral_quarter [simp]:
  "(numeral n :: int) < 2 ^ 50 \<Longrightarrow> round_f64 s (numeral n / 4) = Finite s (numeral n / 4)"
  using round_f64_dyadic [of "numeral n" 2 s] by simp

lemma round_f64_zero_one [simp]:
  "round_f64 s 0 = Finite s 0" "round_f64 s 1 = Finite s 1"
  "round_f64 s (1 / 2) = Finite s (1 / 2)" "round_f64 s (1 / 4) = Finite s (1 / 4)"
  using round_f64_dyadic [of 1 0 s] round_f64_dyadic [of 1 1 s] round_f64_dyadic [of 1 2 s]
  by (simp_all add: round_f64_def)

lemma data_example_0: "data (example_recording utc) 0 = Inr [Finite False (49 / 2)]"
  by (simp add: data_def example_recording_def example_hdr_def example_chan_def
      example_npdata_def py_slice_step_def py_index_def quarter_floor_exact signed_value_def
      Let_def)

lemma data_example_1:
  "data (example_recording utc) 1 =
     Inr [Finite True 1, Finite True 1, Finite True 1, Finite True 1,
          Finite False 0, Finite False 0, Finite False 0, Finite False 0, Finite False 1]"
  by (simp add: data_def example_recording_def example_hdr_def example_chan_def
      example_npdata_def py_slice_step_def py_index_def quarter_floor_exact signed_value_def
      Let_def)

subsection \<open>C3: channel indexes\<close>

lemma le_uint_nonneg: "0 \<le> le_uint bs"
  by (induction bs) simp_all

lemma read_nChannels_nonneg: "read_nChannels fc = Inr n \<Longrightarrow> 0 \<le> n"
  by (auto simp add: read_nChannels_def unpack_UI_def unpack_B_def py_bind_eq_Inr le_uint_nonneg
      split: if_splits)

lemma read_header_nChannels_pos: "read_header env fc = Inr h \<Longrightarrow> 0 < nChannels h"
proof -
  assume a: "read_header env fc = Inr h"
  then have "0 \<le> nChannels h"
    using read_nChannels_nonneg [OF read_header_nChannels [OF a]] by simp
  moreover have "nChannels h \<noteq> 0"
    using a unfolding read_header_def
    by (auto simp add: py_bind_eq_Inr py_truediv_def split: if_splits)
  ultimately show ?thesis by simp
qed

lemma split_nonempty: "split sep s \<noteq> []"
  by (induction s) (auto split: list.splits)

lemma decode_all_error: "decode_all u bs = Inl e \<Longrightarrow> e = UnicodeDecodeError"
  by (induction bs arbitrary: u) (auto simp add: py_bind_eq_Inl dest: decode_utf8_error)

lemma py_index_Inr_iff:
  "(\<exists>x. py_index xs i = Inr x) \<longleftrightarrow> - int (length xs) \<le> i \<and> i < int (length xs)"
  by (auto simp add: py_index_def Let_def)

lemma py_index_error:
  "\<not> (- int (length xs) \<le> i \<and> i < int (length xs)) \<Longrightarrow> py_index xs i = Inl IndexError"
  by (auto simp add: py_index_def Let_def)

lemma py_slice_step_pos: "0 < n \<Longrightarrow> \<exists>ys. py_slice_step xs k n = Inr ys"
  by (simp add: py_slice_step_def Let_def)

lemma decoded_shape:
  assumes "windaq_init env fc = Inr w"
  shows "0 < nChannels (hdr w)" "uniform (chan w) (nat (nChannels (hdr w)))"
    "annotations w \<noteq> []"
proof -
  show "0 < nChannels (hdr w)"
    using assms read_header_nChannels_pos [of env fc "hdr w"] by (simp add: windaq_init_Inr)
  show "uniform (chan w) (nat (nChannels (hdr w)))"
    using assms read_channel_info_entries(1) [of fc "hdr w" "chan w"]
    by (simp add: windaq_init_Inr)
  show "annotations w \<noteq> []"
    using assms by (auto simp add: windaq_init_Inr read_annotations_def py_bind_eq_Inr split_nonempty)
qed

lemma unit_example_0: "unit (example_recording utc) 0 = Inr ''V''"
  by (simp add: unit_def example_recording_def example_chan_def py_index_def decode_utf8_def
      strip_def isspace_def char_of_def bit_Suc_0_iff Let_def)

text \<open>
  C3 says that every channel index outside 1 .. channel_count makes each of the three
  accessors fail. The methods index Python lists with \<open>channelNumber - 1\<close> and have no
  check of the range: index 0 is the Python index -1, so on the sample file (two
  channels) \<open>data\<close> and \<open>unit\<close> return the last sample and the unit of the last
  channel, \<open>chAnnotation\<close> returns the last part of the split annotations, and index 3
  (channel_count + 1) of \<open>chAnnotation\<close> returns the empty part after the last null.
\<close>

theorem channel_index_counterexample:
  "windaq_init utc example_wdq = Inr (example_recording utc) \<and>
   nChannels (hdr (example_recording utc)) = 2 \<and>
   data (example_recording utc) 0 = Inr [Finite False (49 / 2)] \<and>
   unit (example_recording utc) 0 = Inr ''V'' \<and>
   chAnnotation (example_recording utc) 0 = Inr [] \<and>
   chAnnotation (example_recording utc) 3 = Inr []"
proof -
  have "chAnnotation (example_recording utc) 0 = Inr []"
    "chAnnotation (example_recording utc) 3 = Inr []"
    "nChannels (hdr (example_recording utc)) = 2"
    by (simp_all add: chAnnotation_def example_recording_def example_hdr_def py_index_def Let_def)
  then show ?thesis
    by (simp add: example_decodes data_example_0 unit_example_0)
qed

text \<open>
  C3, amended: a decoded recording has at least one channel. For every index greater
  than channel_count, and every index at most -channel_count, \<open>data\<close> and \<open>unit\<close> fail
  with IndexError; for the indexes from 1 - channel_count to channel_count (index 0
  and the negative ones are Python indexes from the end) \<open>data\<close> returns values and
  \<open>unit\<close> does not fail with IndexError. \<open>chAnnotation\<close> fails with IndexError exactly
  for the indexes greater than the number of parts of the split annotations or at most
  its negation.
\<close>

theorem channel_index_bounds:
  assumes "windaq_init env fc = Inr w"
  shows "0 < nChannels (hdr w) \<and> annotations w \<noteq> [] \<and>
    (nChannels (hdr w) < c \<or> c \<le> - nChannels (hdr w) \<longrightarrow>
       data w c = Inl IndexError \<and> unit w c = Inl IndexError) \<and>
    (- nChannels (hdr w) < c \<and> c \<le> nChannels (hdr w) \<longrightarrow>
       (\<exists>v. data w c = Inr v) \<and> unit w c \<noteq> Inl IndexError) \<and>
    (int (length (annotations w)) < c \<or> c \<le> - int (length (annotations w)) \<longrightarrow>
       chAnnotation w c = Inl IndexError) \<and>
    (- int (length (annotations w)) < c \<and> c \<le> int (length (annotations w)) \<longrightarrow>
       (\<exists>s. chAnnotation w c = Inr s))"
proof -
  note sh = decoded_shape [OF assms]
  define n where "n = nChannels (hdr w)"
  have len: "int (length (calScaling (chan w))) = n" "int (length (calIntercept (chan w))) = n"
    "int (length (engUnits (chan w))) = n"
    using sh(1,2) by (simp_all add: uniform_def n_def)
  obtain ys where ys: "py_slice_step (npdata w) (c - 1) n = Inr ys"
    using py_slice_step_pos [of n] sh(1) unfolding n_def by blast
  have out: "data w c = Inl IndexError \<and> unit w c = Inl IndexError" if "n < c \<or> c \<le> - n"
  proof -
    have "py_index (calScaling (chan w)) (c - 1) = Inl IndexError"
      "py_index (engUnits (chan w)) (c - 1) = Inl IndexError"
      using that len by (auto intro!: py_index_error)
    then show ?thesis
      using ys by (simp add: data_def unit_def n_def Let_def)
  qed
  have inside: "(\<exists>v. data w c = Inr v) \<and> unit w c \<noteq> Inl IndexError" if "- n < c \<and> c \<le> n"
  proof -
    have rng: "- n \<le> c - 1 \<and> c - 1 < n"
      using that by simp
    have "\<exists>a. py_index (calScaling (chan w)) (c - 1) = Inr a"
      "\<exists>b. py_index (calIntercept (chan w)) (c - 1) = Inr b"
      "\<exists>u. py_index (engUnits (chan w)) (c - 1) = Inr u"
      unfolding py_index_Inr_iff len using rng by simp_all
    then obtain a b u where i: "py_index (calScaling (chan w)) (c - 1) = Inr a"
      "py_index (calIntercept (chan w)) (c - 1) = Inr b"
      "py_index (engUnits (chan w)) (c - 1) = Inr u"
      by blast
    have "unit w c \<noteq> Inl IndexError"
      using i(3) decode_all_error [of "[]" u IndexError]
      by (cases "decode_all [] u") (auto simp add: unit_def)
    then show ?thesis
      using ys i by (simp add: data_def n_def Let_def)
  qed
  have ann: "chAnnotation w c = Inl IndexError"
    if "int (length (annotations w)) < c \<or> c \<le> - int (length (annotations w))"
    using that unfolding chAnnotation_def by (auto intro!: py_index_error)
  have ann': "\<exists>s. chAnnotation w c = Inr s"
    if "- int (length (annotations w)) < c \<and> c \<le> int (length (annotations w))"
    unfolding chAnnotation_def py_index_Inr_iff using that by simp
  show ?thesis
    using sh(1,3) out inside ann ann' unfolding n_def by blast
qed

theorem channel_index_bounds_witness:
  "windaq_init utc example_wdq = Inr (example_recording utc) \<and>
   nChannels (hdr (example_recording utc)) = 2 \<and>
   length (annotations (example_recording utc)) = 3 \<and>
   data (example_recording utc) 3 = Inl IndexError \<and>
   unit (example_recording utc) 3 = Inl IndexError \<and>
   (\<exists>v. data (example_recording utc) 0 = Inr v) \<and>
   chAnnotation (example_recording utc) 4 = Inl IndexError \<and>
   (\<exists>s. chAnnotation (example_recording utc) 3 = Inr s)"
proof -
  have f: "nChannels (hdr (example_recording utc)) = 2"
    "length (annotations (example_recording utc)) = 3"
    by (simp_all add: example_recording_def example_hdr_def)
  show ?thesis
    using channel_index_bounds [OF example_decodes [of utc], of 3]
      channel_index_bounds [OF example_decodes [of utc], of 0]
      channel_index_bounds [OF example_decodes [of utc], of 4] f example_decodes [of utc]
    by simp
qed

subsection \<open>C2: the sample count\<close>

lemmas init_eval' = windaq_init_def read_header_def read_nChannels_def unpack_defs unpack_from_def
  le_sint_def f64_of_bits_def f32_of_bits_def pow2_def py_truediv_def f64_of_int_def
  example_times(1) read_channel_info_def py_range_def read_channel_def upt_rec
  read_annotations_def aOffset_def decode_utf8_def char_of_def bit_Suc_0_iff read_npdata_def
  frombuffer_int16_def Let_def







lemma frombuffer_length:
  "frombuffer_int16 buf count off = Inr xs \<Longrightarrow> 0 \<le> count \<Longrightarrow> length xs = nat count"
  by (auto simp add: frombuffer_int16_def Let_def split: if_splits)









subsection \<open>C1: the values of a channel\<close>

lemma set_every_nth: "set (every_nth n xs) \<subseteq> set xs"
proof (induction n xs rule: every_nth.induct)
  case (1 n)
  then show ?case by simp
next
  case (2 n x xs)
  have "set (drop (n - 1) xs) \<subseteq> set xs"
    by (rule set_drop_subset)
  then show ?case
    using 2 by auto
qed

lemma set_py_slice_step: "py_slice_step xs k n = Inr ys \<Longrightarrow> set ys \<subseteq> set xs"
proof -
  assume a: "py_slice_step xs k n = Inr ys"
  have "set (every_nth m (drop j xs)) \<subseteq> set xs" for m j
    using set_every_nth [of m "drop j xs"] set_drop_subset [of j xs] by blast
  then show ?thesis
    using a by (auto simp add: py_slice_step_def Let_def split: if_splits)
qed

lemma le_sint_bound: "length bs \<le> 2 \<Longrightarrow> \<bar>le_sint bs\<bar> < 2 ^ 50"
proof -
  assume "length bs \<le> 2"
  then consider "bs = []" | a where "bs = [a]" | a b where "bs = [a, b]"
    by (cases bs rule: list.exhaust; cases "tl bs" rule: list.exhaust; cases "tl (tl bs)") auto
  then show ?thesis
  proof cases
    case 1
    then show ?thesis by (simp add: le_sint_def)
  next
    case 2
    have "0 \<le> uint a" "uint a < 256"
      using uint_bounded [of a] by simp_all
    then show ?thesis
      using 2 by (simp add: le_sint_def Let_def)
  next
    case 3
    have "0 \<le> uint a" "uint a < 256" "0 \<le> uint b" "uint b < 256"
      using uint_bounded [of a] uint_bounded [of b] by simp_all
    then show ?thesis
      using 3 by (simp add: le_sint_def Let_def)
  qed
qed

lemma frombuffer_int16_bound:
  "frombuffer_int16 buf count off = Inr xs \<Longrightarrow> r \<in> set xs \<Longrightarrow> \<bar>r\<bar> < 2 ^ 50"
proof -
  assume a: "frombuffer_int16 buf count off = Inr xs" and r: "r \<in> set xs"
  obtain m where "xs = map (\<lambda>k. le_sint (take 2 (drop (nat off + 2 * k) buf))) [0..<m]"
    using a by (auto simp add: frombuffer_int16_def Let_def split: if_splits)
  then obtain k where "r = le_sint (take 2 (drop (nat off + 2 * k) buf))"
    using r by auto
  then show ?thesis
    using le_sint_bound [of "take 2 (drop (nat off + 2 * k) buf)"] by simp
qed

lemma npdata_bound:
  assumes "windaq_init env fc = Inr w" "r \<in> set (npdata w)"
  shows "\<bar>r\<bar> < 2 ^ 50"
proof -
  have "read_npdata fc (hdr w) = Inr (npdata w)"
    using assms(1) by (simp add: windaq_init_Inr)
  then obtain count where "frombuffer_int16 fc count (headSize (hdr w)) = Inr (npdata w)"
    by (auto simp add: read_npdata_def py_bind_eq_Inr)
  then show ?thesis
    using assms(2) by (rule frombuffer_int16_bound)
qed

lemma quarter_spec:
  assumes "\<bar>r\<bar> < 2 ^ 50"
  shows "f64_mul (f64_of_int r) quarter = f64_exact (of_int r * (1 / 4))"
    "f64_floor (f64_mul (f64_of_int r) quarter) = f64_exact (of_int \<lfloor>(of_int r :: rat) * (1 / 4)\<rfloor>)"
proof -
  have a: "\<bar>(of_int r :: rat)\<bar> = of_int \<bar>r\<bar>"
    by simp
  show "f64_mul (f64_of_int r) quarter = f64_exact (of_int r * (1 / 4))"
    unfolding quarter_exact [OF assms] f64_exact_def by (simp add: abs_mult)
  have fl: "\<lfloor>(of_int r :: rat) / 4\<rfloor> = r div 4"
    using floor_divide_of_int_eq [of r 4, where ?'a = rat] by simp
  have "(r div 4 < 0) = (r < 0)"
    by presburger
  then show "f64_floor (f64_mul (f64_of_int r) quarter) = f64_exact (of_int \<lfloor>(of_int r :: rat) * (1 / 4)\<rfloor>)"
    unfolding quarter_floor_exact [OF assms] f64_exact_def by (simp add: fl)
qed

lemma example_hires_decodes: "windaq_init utc (example_wdq[100 := 2]) = Inr example_hires"
  by (simp add: example_bytes init_eval' example_hires_def example_recording_def example_hdr_def
      example_chan_def example_npdata_def)

lemma data_hires_1:
  "data example_hires 1 =
     Inr [Finite True 1, Finite True (3 / 4), Finite True (1 / 2), Finite True (1 / 4),
          Finite False 0, Finite False (1 / 4), Finite False (1 / 2), Finite False (3 / 4),
          Finite False 1]"
  by (simp add: data_def example_hires_def example_recording_def example_hdr_def example_chan_def
      example_npdata_def py_slice_step_def py_index_def quarter_exact signed_value_def Let_def)

text \<open>
  C1: for every decoded recording and every channel index \<open>c\<close> from 1 to the channel
  count, \<open>data\<close> returns, for the raw samples of the channel (the interleaved block from
  index \<open>c - 1\<close> in steps of the channel count), \<open>cal_scale * (r * 0.25) + cal_intercept\<close>
  in high resolution and \<open>cal_scale * floor (r * 0.25) + cal_intercept\<close> otherwise, where
  the quarter and its floor are exact and the calibration is computed in binary64. In
  particular, channel 1 of the sample file has calibration 1.0 and 0.0 and the raw
  samples -4 to 4: its values are -1, -1, -1, -1, 0, 0, 0, 0, 1 in standard resolution
  and -1, -0.75, -0.5, -0.25, 0, 0.25, 0.5, 0.75, 1 when the file is marked high
  resolution.
\<close>

theorem channel_values_formula:
  assumes "windaq_init env fc = Inr w" "1 \<le> c" "c \<le> nChannels (hdr w)"
  shows "data w c = Inr (spec_channel_values w c) \<and>
    windaq_init utc example_wdq = Inr (example_recording utc) \<and>
    data (example_recording utc) 1 =
      Inr [Finite True 1, Finite True 1, Finite True 1, Finite True 1,
           Finite False 0, Finite False 0, Finite False 0, Finite False 0, Finite False 1] \<and>
    windaq_init utc (example_wdq[100 := 2]) = Inr example_hires \<and>
    data example_hires 1 =
      Inr [Finite True 1, Finite True (3 / 4), Finite True (1 / 2), Finite True (1 / 4),
           Finite False 0, Finite False (1 / 4), Finite False (1 / 2), Finite False (3 / 4),
           Finite False 1]"
proof -
  define n where "n = nChannels (hdr w)"
  have sh: "0 < n" "uniform (chan w) (nat n)"
    using decoded_shape [OF assms(1)] by (simp_all add: n_def)
  have len: "length (calScaling (chan w)) = nat n" "length (calIntercept (chan w)) = nat n"
    using sh(2) by (simp_all add: uniform_def)
  have sl: "py_slice_step (npdata w) (c - 1) n = Inr (spec_channel_samples w c)"
    using py_slice_step_channel [of n "c - 1" "npdata w"] sh(1) assms(2)
    by (simp add: spec_channel_samples_def n_def Let_def)
  have bd: "\<bar>r\<bar> < 2 ^ 50" if "r \<in> set (spec_channel_samples w c)" for r
    using set_py_slice_step [OF sl] that npdata_bound [OF assms(1)] by blast
  have ix: "py_index (calScaling (chan w)) (c - 1) = Inr (calScaling (chan w) ! nat (c - 1))"
    "py_index (calIntercept (chan w)) (c - 1) = Inr (calIntercept (chan w) ! nat (c - 1))"
    using assms(2,3) len by (simp_all add: py_index_def n_def Let_def)
  have main: "data w c = Inr (spec_channel_values w c)"
  proof (cases "HiRes (hdr w) = 0")
    case True
    then show ?thesis
      using sl ix bd unfolding n_def
      by (simp add: data_def spec_channel_values_def spec_physical_value_def Let_def
          quarter_spec(2))
  next
    case False
    then show ?thesis
      using sl ix bd unfolding n_def
      by (simp add: data_def spec_channel_values_def spec_physical_value_def Let_def
          quarter_spec(1))
  qed
  show ?thesis
    by (intro conjI) (rule main example_decodes data_example_1 example_hires_decodes data_hires_1)+
qed

theorem channel_values_formula_witness:
  "windaq_init utc example_wdq = Inr (example_recording utc) \<and>
   nChannels (hdr (example_recording utc)) = 2 \<and>
   data (example_recording utc) 2 = Inr (spec_channel_values (example_recording utc) 2) \<and>
   spec_channel_values (example_recording utc) 2 =
     [Finite False (9 / 2), Finite True (11 / 2), Finite False (21 / 2), Finite True (19 / 2),
      Finite False (29 / 2), Finite True (31 / 2), Finite False (41 / 2), Finite True (39 / 2),
      Finite False (49 / 2)]"
proof -
  have n: "nChannels (hdr (example_recording utc)) = 2"
    by (simp add: example_recording_def example_hdr_def)
  have v: "data (example_recording utc) 2 =
     Inr [Finite False (9 / 2), Finite True (11 / 2), Finite False (21 / 2), Finite True (19 / 2),
      Finite False (29 / 2), Finite True (31 / 2), Finite False (41 / 2), Finite True (39 / 2),
      Finite False (49 / 2)]"
    by (simp add: data_def example_recording_def example_hdr_def example_chan_def
        example_npdata_def py_slice_step_def py_index_def quarter_floor_exact signed_value_def
        Let_def)
  show ?thesis
    using channel_values_formula [OF example_decodes [of utc], of 2] example_decodes [of utc] n v
    by simp
qed

end
